theory Spec2Isabelle
  imports Main "HOL-Library.Sublist"
begin

section \<open>The dependency-injection container of the SMS API (api/pkg/di/container.go)\<close>

text \<open>
  The container resolves handlers, services, repositories and validators, memoises three
  singletons (the fiber application, the gorm database handle, the event dispatcher) and,
  in \<open>NewContainer\<close>, registers listeners and routes.  Everything the Go code does besides
  returning a value is explicit here:
  \<^item> every constructor of another package (\<open>fiber.New\<close>, \<open>services.NewMessageService\<close>, ...)
    allocates one object in a heap; a pointer is an optional address, \<open>None\<close> being \<open>nil\<close>;
  \<^item> calls on the logger, the application, the database and the dispatcher are appended
    to a trace, in the order the program makes them;
  \<^item> \<open>log.Fatal\<close> and \<open>container.logger.Fatal\<close> end the process: the model returns
    \<open>Inl\<close> with the reason and nothing runs afterwards;
  \<^item> what the outside world decides (environment variables, whether the database opens,
    whether a migration succeeds, the routes a listener group returns) is a parameter.
\<close>

subsection \<open>Objects, calls and the world\<close>

type_synonym addr = nat

type_synonym ptr = "addr option"

text \<open>The Go types whose constructors the container calls.\<close>

datatype kind =
    KConsoleWriter
  | KCloudLoggingWriter
  | KZerologLogger
  | KServiceLogger
  | KOtelLogger
  | KGormLogger
  | KGormDB
  | KFiberApp
  | KFiberLoggerMiddleware
  | KCorsMiddleware
  | KMessageHandlerValidator
  | KHeartbeatHandler
  | KHeartbeatHandlerValidator
  | KMessageThreadHandler
  | KMessageThreadHandlerValidator
  | KEventDispatcher
  | KGormMessageRepository
  | KGormMessageThreadRepository
  | KGormEventRepository
  | KGormEventListenerLogRepository
  | KGormHeartbeatRepository
  | KHeartbeatService
  | KMessageThreadService
  | KMessageService
  | KMessageHandler
  | KMessageListener
  | KMessageThreadListener
  | KHeartbeatListener

text \<open>An object: its type and the pointers its constructor received, in argument order.\<close>

datatype obj = Obj (kind: kind) (deps: "ptr list")

text \<open>The models \<open>DB\<close> migrates, in the order of the source.\<close>

datatype entity = Message | GormEvent | EventListenerLog | MessageThread | Heartbeat

text \<open>A listener function: a method value bound to its listener-group object.\<close>

datatype handler = Handler ptr string

text \<open>The calls with an effect outside the container, as the trace records them.\<close>

datatype call =
    LogDebug ptr string
  | AppUse ptr ptr
  | DBAutoMigrate ptr entity
  | HandlerRegisterRoutes ptr ptr string
  | AppGet ptr string
  | DispatcherSubscribe ptr string handler

text \<open>The ways the process is terminated.\<close>

datatype fatal =
    CloudLoggingWriterFatal
  | OpenFatal
  | MigrateFatal entity
  | SubscribeFatal string

text \<open>
  What the program does not decide.  The failure oracles take the number of effects made
  so far, so that two calls of the same operation may differ in outcome.
  \<open>subscribeFails\<close> stands for \<open>services.EventDispatcher.Subscribe\<close>, which is outside
  this file: given the handlers already subscribed on the dispatcher, the event type and
  the handler, it tells whether the call ends the process.  The three route lists are what
  the listener constructors return, in the order \<open>range\<close> visits them.
\<close>

record Outside =
  getenv :: "string \<Rightarrow> string"
  cloudWriterFails :: "nat \<Rightarrow> bool"
  openFails :: "string \<Rightarrow> nat \<Rightarrow> bool"
  migrateFails :: "nat \<Rightarrow> entity \<Rightarrow> bool"
  subscribeFails :: "(string \<times> handler) list \<Rightarrow> string \<Rightarrow> handler \<Rightarrow> bool"
  messageRoutes :: "(string \<times> string) list"
  messageThreadRoutes :: "(string \<times> string) list"
  heartbeatRoutes :: "(string \<times> string) list"

record World =
  heap :: "obj list"
  trace :: "call list"
  outside :: Outside

text \<open>The struct \<open>Container\<close>.\<close>

record Container =
  projectID :: string
  db :: ptr
  app :: ptr
  eventDispatcher :: ptr
  logger :: ptr

type_synonym state = "Container \<times> World"

type_synonym 'a prog = "state \<Rightarrow> fatal + ('a \<times> state)"

subsection \<open>Sequencing\<close>

definition ret :: "'a \<Rightarrow> 'a prog" where
  "ret x = (\<lambda>s. Inr (x, s))"

definition bindM :: "'a prog \<Rightarrow> ('a \<Rightarrow> 'b prog) \<Rightarrow> 'b prog" where
  "bindM m f = (\<lambda>s. case m s of Inl e \<Rightarrow> Inl e | Inr (x, s') \<Rightarrow> f x s')"

definition exitWith :: "fatal \<Rightarrow> 'a prog" where
  "exitWith e = (\<lambda>s. Inl e)"

definition getC :: "(Container \<Rightarrow> 'a) \<Rightarrow> 'a prog" where
  "getC f = (\<lambda>s. Inr (f (fst s), s))"

definition getW :: "(World \<Rightarrow> 'a) \<Rightarrow> 'a prog" where
  "getW f = (\<lambda>s. Inr (f (snd s), s))"

definition setC :: "(Container \<Rightarrow> Container) \<Rightarrow> unit prog" where
  "setC f = (\<lambda>s. Inr ((), (f (fst s), snd s)))"

definition emit :: "call \<Rightarrow> unit prog" where
  "emit e = (\<lambda>s. Inr ((), (fst s, (snd s)\<lparr>trace := trace (snd s) @ [e]\<rparr>)))"

text \<open>A constructor call: the new object gets the next address.\<close>

definition new :: "kind \<Rightarrow> ptr list \<Rightarrow> ptr prog" where
  "new k ds = (\<lambda>s. Inr (Some (length (heap (snd s))),
                        (fst s, (snd s)\<lparr>heap := heap (snd s) @ [Obj k ds]\<rparr>)))"

definition now :: "World \<Rightarrow> nat" where
  "now w = length (heap w) + length (trace w)"

text \<open>\<open>container.logger.Debug(msg)\<close>\<close>

definition Debug :: "string \<Rightarrow> unit prog" where
  "Debug msg = bindM (getC logger) (\<lambda>l. emit (LogDebug l msg))"

text \<open>Evaluating the arguments of a call, left to right.\<close>

fun resolveAll :: "ptr prog list \<Rightarrow> ptr list prog" where
  "resolveAll [] = ret []"
| "resolveAll (m # ms) = bindM m (\<lambda>a. bindM (resolveAll ms) (\<lambda>as. ret (a # as)))"

text \<open>
  The shape of every non-singleton accessor: log, resolve the arguments, call the
  constructor.
\<close>

definition construct :: "string \<Rightarrow> kind \<Rightarrow> ptr prog list \<Rightarrow> ptr prog" where
  "construct msg k args =
     bindM (Debug msg) (\<lambda>_. bindM (resolveAll args) (\<lambda>as. new k as))"

subsection \<open>The logger\<close>

definition isLocal :: "bool prog" where
  "isLocal = getW (\<lambda>w. getenv (outside w) ''ENV'' = ''local'')"

text \<open>\<open>zlg.NewCloudLoggingWriter\<close>: \<open>None\<close> is a non-nil \<open>err\<close>.\<close>

definition NewCloudLoggingWriter :: "ptr prog" where
  "NewCloudLoggingWriter =
     bindM (getW (\<lambda>w. cloudWriterFails (outside w) (now w))) (\<lambda>err.
       if err then ret None else new KCloudLoggingWriter [])"

definition logger_fn :: "ptr prog" where
  "logger_fn =
     bindM (new KConsoleWriter []) (\<lambda>writer.
     bindM isLocal (\<lambda>local.
     bindM (if \<not> local
            then bindM NewCloudLoggingWriter (\<lambda>gcpWriter.
                   case gcpWriter of
                     None \<Rightarrow> exitWith CloudLoggingWriterFatal
                   | Some g \<Rightarrow> ret (Some g))
            else ret writer) (\<lambda>writer.
     new KZerologLogger [writer])))"

definition Logger :: "ptr prog" where
  "Logger = bindM (Debug ''creating telemetry.Logger'') (\<lambda>_. logger_fn)"

definition Tracer :: "ptr prog" where
  "Tracer = construct ''creating telemetry.Tracer'' KOtelLogger [Logger]"

subsection \<open>The singletons \<open>App\<close> and \<open>DB\<close>\<close>

definition appUse :: "ptr \<Rightarrow> kind \<Rightarrow> unit prog" where
  "appUse a k = bindM (new k []) (\<lambda>mw. emit (AppUse a mw))"

definition App :: "ptr prog" where
  "App =
     bindM (getC app) (\<lambda>cached.
       case cached of
         Some a \<Rightarrow> ret (Some a)
       | None \<Rightarrow>
           bindM (Debug ''creating *fiber.App'') (\<lambda>_.
           bindM (new KFiberApp []) (\<lambda>a.
           bindM (getW (\<lambda>w. getenv (outside w) ''APP_HTTP_LOGGER'' = ''true'')) (\<lambda>httpLogger.
           bindM (if httpLogger then appUse a KFiberLoggerMiddleware else ret ()) (\<lambda>_.
           bindM (appUse a KCorsMiddleware) (\<lambda>_.
           bindM (setC (\<lambda>c. c\<lparr>app := a\<rparr>)) (\<lambda>_.
           ret a)))))))"

text \<open>\<open>gorm.Open\<close>: \<open>None\<close> is a non-nil \<open>err\<close>.\<close>

definition gormOpen :: "ptr \<Rightarrow> ptr prog" where
  "gormOpen gl =
     bindM (getW (\<lambda>w. openFails (outside w) (getenv (outside w) ''DATABASE_URL'') (now w)))
       (\<lambda>err. if err then ret None else new KGormDB [gl])"

text \<open>
  One \<open>if err = db.AutoMigrate(&e); err != nil { container.logger.Fatal(...) }\<close>.
\<close>

definition migrate :: "ptr \<Rightarrow> entity \<Rightarrow> unit prog" where
  "migrate d e =
     bindM (getW (\<lambda>w. migrateFails (outside w) (now w) e)) (\<lambda>err.
       if err then exitWith (MigrateFatal e) else emit (DBAutoMigrate d e))"

definition DB :: "ptr prog" where
  "DB =
     bindM (getC db) (\<lambda>cached.
       case cached of
         Some d \<Rightarrow> ret (Some d)
       | None \<Rightarrow>
           bindM (new KGormLogger []) (\<lambda>gl.
           bindM (Debug ''creating *gorm.DB'') (\<lambda>_.
           bindM (gormOpen gl) (\<lambda>opened.
             case opened of
               None \<Rightarrow> exitWith OpenFatal
             | Some d \<Rightarrow>
                 bindM (setC (\<lambda>c. c\<lparr>db := Some d\<rparr>)) (\<lambda>_.
                 bindM (Debug ''Running migrations for *gorm.DB'') (\<lambda>_.
                 bindM (migrate (Some d) Message) (\<lambda>_.
                 bindM (migrate (Some d) GormEvent) (\<lambda>_.
                 bindM (migrate (Some d) EventListenerLog) (\<lambda>_.
                 bindM (migrate (Some d) MessageThread) (\<lambda>_.
                 bindM (migrate (Some d) Heartbeat) (\<lambda>_.
                 getC db)))))))))))"

subsection \<open>Repositories, dispatcher, services, validators, handlers\<close>

definition MessageHandlerValidator :: "ptr prog" where
  "MessageHandlerValidator =
     construct ''creating *validators.MessageHandlerValidator'' KMessageHandlerValidator
       [Logger, Tracer]"

definition HeartbeatHandlerValidator :: "ptr prog" where
  "HeartbeatHandlerValidator =
     construct ''creating *validators.HeartbeatHandlerValidator'' KHeartbeatHandlerValidator
       [Logger, Tracer]"

definition MessageThreadHandlerValidator :: "ptr prog" where
  "MessageThreadHandlerValidator =
     construct ''creating *validators.MessageThreadHandlerValidator''
       KMessageThreadHandlerValidator [Logger, Tracer]"

definition MessageRepository :: "ptr prog" where
  "MessageRepository =
     construct ''creating GORM repositories.MessageRepository'' KGormMessageRepository
       [Logger, Tracer, DB]"

definition MessageThreadRepository :: "ptr prog" where
  "MessageThreadRepository =
     construct ''creating GORM repositories.MessageThreadRepository''
       KGormMessageThreadRepository [Logger, Tracer, DB]"

definition EventRepository :: "ptr prog" where
  "EventRepository =
     construct ''creating GORM repositories.EventRepository'' KGormEventRepository
       [Logger, Tracer, DB]"

definition EventListenerLogRepository :: "ptr prog" where
  "EventListenerLogRepository =
     construct ''creating GORM repositories.EventListenerLogRepository''
       KGormEventListenerLogRepository [Logger, Tracer, DB]"

definition HeartbeatRepository :: "ptr prog" where
  "HeartbeatRepository =
     construct ''creating GORM repositories.HeartbeatRepository'' KGormHeartbeatRepository
       [Logger, Tracer, DB]"

definition EventDispatcher :: "ptr prog" where
  "EventDispatcher =
     bindM (getC eventDispatcher) (\<lambda>cached.
       case cached of
         Some d \<Rightarrow> ret (Some d)
       | None \<Rightarrow>
           bindM (construct ''creating *services.EventDispatcher'' KEventDispatcher
                    [Logger, Tracer, EventRepository]) (\<lambda>dispatcher.
           bindM (setC (\<lambda>c. c\<lparr>eventDispatcher := dispatcher\<rparr>)) (\<lambda>_.
           ret dispatcher)))"

definition HeartbeatService :: "ptr prog" where
  "HeartbeatService =
     construct ''creating *services.HeartbeatService'' KHeartbeatService
       [Logger, Tracer, HeartbeatRepository]"

definition MessageThreadService :: "ptr prog" where
  "MessageThreadService =
     construct ''creating *services.MessageThreadService'' KMessageThreadService
       [Logger, Tracer, MessageThreadRepository]"

definition MessageService :: "ptr prog" where
  "MessageService =
     construct ''creating *services.MessageService'' KMessageService
       [Logger, Tracer, MessageRepository, EventDispatcher]"

definition HeartbeatHandler :: "ptr prog" where
  "HeartbeatHandler =
     construct ''creating *handlers.HeartbeatHandler'' KHeartbeatHandler
       [Logger, Tracer, HeartbeatHandlerValidator, HeartbeatService]"

definition MessageThreadHandler :: "ptr prog" where
  "MessageThreadHandler =
     construct ''creating *handlers.MessageThreadHandler'' KMessageThreadHandler
       [Logger, Tracer, MessageThreadHandlerValidator, MessageThreadService]"

definition MessageHandler :: "ptr prog" where
  "MessageHandler =
     construct ''creating *handlers.MessageHandler'' KMessageHandler
       [Logger, Tracer, MessageHandlerValidator, MessageService]"

subsection \<open>Listener and route registration\<close>

text \<open>The handlers subscribed on dispatcher \<open>d\<close> so far, in call order.\<close>

fun subscribed :: "ptr \<Rightarrow> call \<Rightarrow> (string \<times> handler) list" where
  "subscribed d (DispatcherSubscribe d' ev h) = (if d' = d then [(ev, h)] else [])"
| "subscribed d _ = []"

definition subscriptions :: "ptr \<Rightarrow> call list \<Rightarrow> (string \<times> handler) list" where
  "subscriptions d cs = concat (map (subscribed d) cs)"

text \<open>
  \<open>dispatcher.Subscribe(event, handler)\<close>, as the container calls it: two arguments, no
  result read.  Whether the call returns is the parameter \<open>subscribeFails\<close>.
\<close>

definition dispatcherSubscribe :: "ptr \<Rightarrow> string \<Rightarrow> handler \<Rightarrow> unit prog" where
  "dispatcherSubscribe d ev h =
     bindM (getW (\<lambda>w. subscribeFails (outside w) (subscriptions d (trace w)) ev h)) (\<lambda>err.
       if err then exitWith (SubscribeFatal ev) else emit (DispatcherSubscribe d ev h))"

text \<open>\<open>for event, handler := range routes { container.EventDispatcher().Subscribe(event, handler) }\<close>\<close>

fun subscribeRoutes :: "(string \<times> handler) list \<Rightarrow> unit prog" where
  "subscribeRoutes [] = ret ()"
| "subscribeRoutes ((event, handler) # routes) =
     bindM EventDispatcher (\<lambda>d.
     bindM (dispatcherSubscribe d event handler) (\<lambda>_.
     subscribeRoutes routes))"

text \<open>
  The listener constructors build the group object from their arguments and return its
  routes: each listener function of the group, bound to that object, under its event type.
\<close>

definition bindRoutes :: "ptr \<Rightarrow> (string \<times> string) list \<Rightarrow> (string \<times> handler) list" where
  "bindRoutes l rs = map (\<lambda>(ev, fn). (ev, Handler l fn)) rs"

definition NewMessageListener :: "ptr \<Rightarrow> ptr \<Rightarrow> ptr \<Rightarrow> ptr \<Rightarrow> (string \<times> handler) list prog" where
  "NewMessageListener lg tr service repository =
     bindM (new KMessageListener [lg, tr, service, repository]) (\<lambda>l.
     bindM (getW (\<lambda>w. messageRoutes (outside w))) (\<lambda>rs. ret (bindRoutes l rs)))"

definition NewMessageThreadListener :: "ptr \<Rightarrow> ptr \<Rightarrow> ptr \<Rightarrow> ptr \<Rightarrow> (string \<times> handler) list prog" where
  "NewMessageThreadListener lg tr service repository =
     bindM (new KMessageThreadListener [lg, tr, service, repository]) (\<lambda>l.
     bindM (getW (\<lambda>w. messageThreadRoutes (outside w))) (\<lambda>rs. ret (bindRoutes l rs)))"

definition NewHeartbeatListener :: "ptr \<Rightarrow> ptr \<Rightarrow> ptr \<Rightarrow> (string \<times> handler) list prog" where
  "NewHeartbeatListener lg tr service =
     bindM (new KHeartbeatListener [lg, tr, service]) (\<lambda>l.
     bindM (getW (\<lambda>w. heartbeatRoutes (outside w))) (\<lambda>rs. ret (bindRoutes l rs)))"

definition RegisterMessageListeners :: "unit prog" where
  "RegisterMessageListeners =
     bindM (Debug ''registering listners for listeners.MessageListener'') (\<lambda>_.
     bindM Logger (\<lambda>lg.
     bindM Tracer (\<lambda>tr.
     bindM MessageService (\<lambda>service.
     bindM EventListenerLogRepository (\<lambda>repository.
     bindM (NewMessageListener lg tr service repository) (\<lambda>routes.
     subscribeRoutes routes))))))"

definition RegisterMessageThreadListeners :: "unit prog" where
  "RegisterMessageThreadListeners =
     bindM (Debug ''registering listners for listeners.MessageThreadListener'') (\<lambda>_.
     bindM Logger (\<lambda>lg.
     bindM Tracer (\<lambda>tr.
     bindM MessageThreadService (\<lambda>service.
     bindM EventListenerLogRepository (\<lambda>repository.
     bindM (NewMessageThreadListener lg tr service repository) (\<lambda>routes.
     subscribeRoutes routes))))))"

definition RegisterHeartbeatListeners :: "unit prog" where
  "RegisterHeartbeatListeners =
     bindM (Debug ''registering listners for listeners.HeartbeatListener'') (\<lambda>_.
     bindM Logger (\<lambda>lg.
     bindM Tracer (\<lambda>tr.
     bindM HeartbeatService (\<lambda>service.
     bindM (NewHeartbeatListener lg tr service) (\<lambda>routes.
     subscribeRoutes routes)))))"

text \<open>
  \<open>h.RegisterRoutes(container.App().Group("v1"))\<close>: the handler is resolved first, then the
  application; the call is recorded with the group's prefix.
\<close>

definition registerRoutes :: "string \<Rightarrow> ptr prog \<Rightarrow> unit prog" where
  "registerRoutes msg handlerOf =
     bindM (Debug msg) (\<lambda>_.
     bindM handlerOf (\<lambda>h.
     bindM App (\<lambda>a.
     emit (HandlerRegisterRoutes h a ''v1''))))"

definition RegisterMessageRoutes :: "unit prog" where
  "RegisterMessageRoutes =
     registerRoutes ''registering *handlers.MessageHandler routes'' MessageHandler"

definition RegisterMessageThreadRoutes :: "unit prog" where
  "RegisterMessageThreadRoutes =
     registerRoutes ''registering *handlers.MessageThreadHandler routes'' MessageThreadHandler"

definition RegisterHeartbeatRoutes :: "unit prog" where
  "RegisterHeartbeatRoutes =
     registerRoutes ''registering *handlers.HeartbeatHandler routes'' HeartbeatHandler"

definition RegisterSwaggerRoutes :: "unit prog" where
  "RegisterSwaggerRoutes =
     bindM (Debug ''registering *handlers.MessageHandler routes'') (\<lambda>_.
     bindM App (\<lambda>a.
     emit (AppGet a ''/*'')))"

subsection \<open>\<open>NewContainer\<close>\<close>

text \<open>The struct literal before its \<open>logger\<close> field is evaluated.\<close>

definition blank :: "string \<Rightarrow> Container" where
  "blank pid = \<lparr>projectID = pid, db = None, app = None, eventDispatcher = None, logger = None\<rparr>"

definition compose :: "unit prog" where
  "compose =
     bindM logger_fn (\<lambda>l.
     bindM (new KServiceLogger [l]) (\<lambda>l'.
     bindM (setC (\<lambda>c. c\<lparr>logger := l'\<rparr>)) (\<lambda>_.
     bindM RegisterMessageListeners (\<lambda>_.
     bindM RegisterMessageRoutes (\<lambda>_.
     bindM RegisterMessageThreadRoutes (\<lambda>_.
     bindM RegisterMessageThreadListeners (\<lambda>_.
     bindM RegisterHeartbeatRoutes (\<lambda>_.
     bindM RegisterHeartbeatListeners (\<lambda>_.
     RegisterSwaggerRoutes)))))))))"

text \<open>
  \<open>NewContainer(projectID)\<close> in world \<open>w\<close>: the container it returns and the world it
  leaves, or the reason the process ended.
\<close>

definition NewContainer :: "string \<Rightarrow> World \<Rightarrow> fatal + state" where
  "NewContainer pid w =
     (case compose (blank pid, w) of Inl e \<Rightarrow> Inl e | Inr (_, s) \<Rightarrow> Inr s)"

definition triple :: "(state \<Rightarrow> bool) \<Rightarrow> 'a prog \<Rightarrow> ('a \<Rightarrow> state \<Rightarrow> bool) \<Rightarrow> (fatal \<Rightarrow> bool) \<Rightarrow> bool" where
  "triple P m Q E \<longleftrightarrow> (\<forall>s. P s \<longrightarrow> (case m s of Inl e \<Rightarrow> E e | Inr (x, s') \<Rightarrow> Q x s'))"

fun loud :: "call \<Rightarrow> bool" where
  "loud (HandlerRegisterRoutes h a p) = True"
| "loud (AppGet a p) = True"
| "loud (DispatcherSubscribe d ev h) = True"
| "loud _ = False"

definition extends :: "state \<Rightarrow> state \<Rightarrow> bool" where
  "extends s0 s \<longleftrightarrow>
     projectID (fst s) = projectID (fst s0) \<and>
     outside (snd s) = outside (snd s0) \<and>
     (db (fst s0) \<noteq> None \<longrightarrow> db (fst s) = db (fst s0)) \<and>
     (app (fst s0) \<noteq> None \<longrightarrow> app (fst s) = app (fst s0)) \<and>
     (eventDispatcher (fst s0) \<noteq> None \<longrightarrow> eventDispatcher (fst s) = eventDispatcher (fst s0)) \<and>
     prefix (heap (snd s0)) (heap (snd s)) \<and> prefix (trace (snd s0)) (trace (snd s))"

definition wiredObj :: "ptr \<Rightarrow> obj \<Rightarrow> bool" where
  "wiredObj d ob \<longleftrightarrow>
     (kind ob = KMessageService \<longrightarrow> d \<noteq> None \<and> length (deps ob) = 4 \<and> deps ob ! 3 = d)"

fun wiredCall :: "ptr \<Rightarrow> call \<Rightarrow> bool" where
  "wiredCall d (DispatcherSubscribe d' ev h) = (d \<noteq> None \<and> d' = d)"
| "wiredCall d _ = True"

definition wired :: "nat \<Rightarrow> nat \<Rightarrow> state \<Rightarrow> bool" where
  "wired n k s \<longleftrightarrow>
     list_all (wiredObj (eventDispatcher (fst s))) (drop n (heap (snd s))) \<and>
     list_all (wiredCall (eventDispatcher (fst s))) (drop k (trace (snd s)))"

definition benign :: "Outside \<Rightarrow> bool" where
  "benign out \<longleftrightarrow>
     (\<forall>url t. \<not> openFails out url t) \<and> (\<forall>t e. \<not> migrateFails out t e) \<and>
     (\<forall>subs ev h. \<not> subscribeFails out subs ev h)"

definition invar ::
  "bool \<Rightarrow> bool \<Rightarrow> bool \<Rightarrow> bool \<Rightarrow> bool \<Rightarrow> nat \<Rightarrow> nat \<Rightarrow> state \<Rightarrow> state \<Rightarrow> bool" where
  "invar q z L D G n k s0 s \<longleftrightarrow>
     extends s0 s \<and> wired n k s \<and>
     (q \<longrightarrow> filter loud (trace (snd s)) = filter loud (trace (snd s0))) \<and>
     (z \<longrightarrow> eventDispatcher (fst s) = eventDispatcher (fst s0)) \<and>
     (L \<longrightarrow> getenv (outside (snd s)) ''ENV'' = ''local'') \<and>
     (D \<longrightarrow> db (fst s) \<noteq> None) \<and>
     (G \<longrightarrow> benign (outside (snd s)))"

fun allowed :: "bool \<Rightarrow> bool \<Rightarrow> bool \<Rightarrow> bool \<Rightarrow> fatal \<Rightarrow> bool" where
  "allowed q L D G CloudLoggingWriterFatal = (\<not> L)"
| "allowed q L D G OpenFatal = (\<not> D \<and> \<not> G)"
| "allowed q L D G (MigrateFatal e) = (\<not> D \<and> \<not> G)"
| "allowed q L D G (SubscribeFatal ev) = (\<not> q \<and> \<not> G)"

definition made :: "kind \<Rightarrow> state \<Rightarrow> ptr \<Rightarrow> state \<Rightarrow> bool" where
  "made K s0 x s \<longleftrightarrow>
     (\<exists>a. x = Some a \<and> length (heap (snd s0)) \<le> a \<and> a < length (heap (snd s)) \<and>
          kind (heap (snd s) ! a) = K)"

definition serviceOn :: "ptr \<Rightarrow> ptr \<Rightarrow> state \<Rightarrow> bool" where
  "serviceOn d x s \<longleftrightarrow>
     (\<exists>a l t r. x = Some a \<and> a < length (heap (snd s)) \<and>
        heap (snd s) ! a = Obj KMessageService [l, t, r, d])"

definition kindAt :: "kind \<Rightarrow> ptr \<Rightarrow> state \<Rightarrow> bool" where
  "kindAt K x s \<longleftrightarrow>
     (\<exists>a. x = Some a \<and> a < length (heap (snd s)) \<and> kind (heap (snd s) ! a) = K)"

definition repoOn :: "ptr \<Rightarrow> state \<Rightarrow> bool" where
  "repoOn x s \<longleftrightarrow>
     (\<exists>a l t. x = Some a \<and> a < length (heap (snd s)) \<and> db (fst s) \<noteq> None \<and>
        heap (snd s) ! a = Obj KGormEventListenerLogRepository [l, t, db (fst s)])"

definition subscribeCall :: "ptr \<Rightarrow> ptr \<Rightarrow> string \<times> string \<Rightarrow> call" where
  "subscribeCall d l r = DispatcherSubscribe d (fst r) (Handler l (snd r))"

definition groupAt :: "kind \<Rightarrow> ptr list \<Rightarrow> addr \<Rightarrow> state \<Rightarrow> bool" where
  "groupAt K ds a s \<longleftrightarrow> a < length (heap (snd s)) \<and> heap (snd s) ! a = Obj K ds"

definition accessors :: "ptr prog list" where
  "accessors =
     [App, Logger, DB, Tracer, MessageHandlerValidator, HeartbeatHandler,
      HeartbeatHandlerValidator, MessageThreadHandler, MessageThreadHandlerValidator,
      EventDispatcher, MessageRepository, MessageThreadRepository, EventRepository,
      EventListenerLogRepository, HeartbeatService, MessageThreadService, MessageHandler,
      MessageService, HeartbeatRepository]"

definition constructors :: "(kind \<times> ptr prog) list" where
  "constructors =
     [(KZerologLogger, Logger), (KOtelLogger, Tracer),
      (KMessageHandlerValidator, MessageHandlerValidator),
      (KHeartbeatHandler, HeartbeatHandler),
      (KHeartbeatHandlerValidator, HeartbeatHandlerValidator),
      (KMessageThreadHandler, MessageThreadHandler),
      (KMessageThreadHandlerValidator, MessageThreadHandlerValidator),
      (KGormMessageRepository, MessageRepository),
      (KGormMessageThreadRepository, MessageThreadRepository),
      (KGormEventRepository, EventRepository),
      (KGormEventListenerLogRepository, EventListenerLogRepository),
      (KHeartbeatService, HeartbeatService),
      (KMessageThreadService, MessageThreadService),
      (KMessageHandler, MessageHandler),
      (KMessageService, MessageService),
      (KGormHeartbeatRepository, HeartbeatRepository)]"

definition routeRegistrations :: "unit prog list" where
  "routeRegistrations =
     [RegisterMessageRoutes, RegisterMessageThreadRoutes, RegisterHeartbeatRoutes,
      RegisterSwaggerRoutes]"

definition listenerRegistrations :: "unit prog list" where
  "listenerRegistrations =
     [RegisterMessageListeners, RegisterMessageThreadListeners, RegisterHeartbeatListeners]"

inductive later :: "state \<Rightarrow> state \<Rightarrow> bool" for s :: state where
  later_now: "later s s"
| later_accessor: "later s s1 \<Longrightarrow> m \<in> set accessors \<Longrightarrow> m s1 = Inr (x, s2) \<Longrightarrow> later s s2"
| later_routes: "later s s1 \<Longrightarrow> r \<in> set routeRegistrations \<Longrightarrow> r s1 = Inr (u, s2) \<Longrightarrow> later s s2"
| later_listeners:
    "later s s1 \<Longrightarrow> r \<in> set listenerRegistrations \<Longrightarrow> r s1 = Inr (u, s2) \<Longrightarrow> later s s2"

fun isRoute :: "call \<Rightarrow> bool" where
  "isRoute (HandlerRegisterRoutes h a p) = True"
| "isRoute (AppGet a p) = True"
| "isRoute _ = False"

definition routeCalls :: "call list \<Rightarrow> call list" where
  "routeCalls cs = filter isRoute cs"

definition singletons :: "(ptr prog \<times> (Container \<Rightarrow> ptr) \<times> kind) list" where
  "singletons = [(App, app, KFiberApp), (DB, db, KGormDB), (EventDispatcher, eventDispatcher, KEventDispatcher)]"

definition exampleOutside :: Outside where
  "exampleOutside =
     \<lparr>getenv = (\<lambda>k. if k = ''ENV'' then ''local'' else []),
      cloudWriterFails = (\<lambda>_. False), openFails = (\<lambda>_ _. False),
      migrateFails = (\<lambda>_ _. False), subscribeFails = (\<lambda>_ _ _. False),
      messageRoutes = [(''message.api.sent'', ''OnMessageAPISent'')],
      messageThreadRoutes = [(''message.api.sent'', ''OnMessageAPISent'')],
      heartbeatRoutes = [(''heartbeat.received'', ''OnHeartbeatReceived'')]\<rparr>"

definition exampleWorld :: World where
  "exampleWorld = \<lparr>heap = [], trace = [], outside = exampleOutside\<rparr>"

definition cloudWorld :: World where
  "cloudWorld =
     \<lparr>heap = [], trace = [],
      outside = exampleOutside\<lparr>getenv := (\<lambda>k. if k = ''ENV'' then ''production'' else []),
                               cloudWriterFails := (\<lambda>_. True)\<rparr>\<rparr>"

lemma tripleD: "triple P m Q E \<Longrightarrow> P s \<Longrightarrow> m s = Inr (x, s') \<Longrightarrow> Q x s'"
  unfolding triple_def by (drule spec [of _ s]) simp

lemma tripleE: "triple P m Q E \<Longrightarrow> P s \<Longrightarrow> m s = Inl e \<Longrightarrow> E e"
  unfolding triple_def by (drule spec [of _ s]) simp

lemma tripleI:
  "(\<And>s x s'. P s \<Longrightarrow> m s = Inr (x, s') \<Longrightarrow> Q x s') \<Longrightarrow>
   (\<And>s e. P s \<Longrightarrow> m s = Inl e \<Longrightarrow> E e) \<Longrightarrow> triple P m Q E"
  unfolding triple_def by (simp split: sum.splits)

lemma bindM_Inr:
  "bindM m f s = Inr (y, s'') \<longleftrightarrow> (\<exists>x s'. m s = Inr (x, s') \<and> f x s' = Inr (y, s''))"
  by (cases "m s") (auto simp: bindM_def)

lemma bindM_Inl:
  "bindM m f s = Inl e \<longleftrightarrow> (m s = Inl e \<or> (\<exists>x s'. m s = Inr (x, s') \<and> f x s' = Inl e))"
  by (cases "m s") (auto simp: bindM_def)

lemma triple_ret: "(\<And>s. P s \<Longrightarrow> Q x s) \<Longrightarrow> triple P (ret x) Q E"
  by (simp add: triple_def ret_def)

lemma triple_bind:
  assumes m: "triple P m R E" and f: "\<And>x. triple (R x) (f x) Q E"
  shows "triple P (bindM m f) Q E"
proof (rule tripleI)
  fix s y s'' assume "P s" and "bindM m f s = Inr (y, s'')"
  then obtain x s' where 1: "m s = Inr (x, s')" and 2: "f x s' = Inr (y, s'')"
    by (auto simp: bindM_Inr)
  from tripleD [OF m \<open>P s\<close> 1] have "R x s'" .
  from tripleD [OF f this 2] show "Q y s''" .
next
  fix s e assume "P s" and "bindM m f s = Inl e"
  then consider "m s = Inl e" | x s' where "m s = Inr (x, s')" "f x s' = Inl e"
    by (auto simp: bindM_Inl)
  then show "E e"
  proof cases
    case 1 from tripleE [OF m \<open>P s\<close> 1] show ?thesis .
  next
    case 2
    from tripleD [OF m \<open>P s\<close> 2(1)] have "R x s'" .
    from tripleE [OF f this 2(2)] show ?thesis .
  qed
qed

lemma triple_weaken:
  assumes "triple P' m Q' E'" "\<And>s. P s \<Longrightarrow> P' s" "\<And>x s. Q' x s \<Longrightarrow> Q x s" "\<And>e. E' e \<Longrightarrow> E e"
  shows "triple P m Q E"
proof (rule tripleI)
  fix s x s' assume "P s" "m s = Inr (x, s')"
  with assms(1,2) have "Q' x s'" by (blast intro: tripleD)
  then show "Q x s'" by (rule assms(3))
next
  fix s e assume "P s" "m s = Inl e"
  with assms(1,2) have "E' e" by (blast intro: tripleE)
  then show "E e" by (rule assms(4))
qed

lemma triple_post: "triple P m Q' E \<Longrightarrow> (\<And>x s. Q' x s \<Longrightarrow> Q x s) \<Longrightarrow> triple P m Q E"
  by (erule triple_weaken)

lemma triple_exit: "(\<And>s. P s \<Longrightarrow> E e) \<Longrightarrow> triple P (exitWith e) Q E"
  by (simp add: triple_def exitWith_def)

lemma triple_getC: "(\<And>s. P s \<Longrightarrow> Q (f (fst s)) s) \<Longrightarrow> triple P (getC f) Q E"
  by (simp add: triple_def getC_def)

lemma triple_getW: "(\<And>s. P s \<Longrightarrow> Q (f (snd s)) s) \<Longrightarrow> triple P (getW f) Q E"
  by (simp add: triple_def getW_def)

lemma triple_setC: "(\<And>s. P s \<Longrightarrow> Q () (f (fst s), snd s)) \<Longrightarrow> triple P (setC f) Q E"
  by (simp add: triple_def setC_def)

lemma triple_emit:
  "(\<And>s. P s \<Longrightarrow> Q () (fst s, (snd s)\<lparr>trace := trace (snd s) @ [c]\<rparr>)) \<Longrightarrow> triple P (emit c) Q E"
  by (simp add: triple_def emit_def)

lemma triple_new:
  "(\<And>s. P s \<Longrightarrow> Q (Some (length (heap (snd s)))) (fst s, (snd s)\<lparr>heap := heap (snd s) @ [Obj K ds]\<rparr>))
   \<Longrightarrow> triple P (new K ds) Q E"
  by (simp add: triple_def new_def)

lemma extends_refl: "extends s s"
  by (simp add: extends_def)

lemma extends_trans: "extends s0 s1 \<Longrightarrow> extends s1 s2 \<Longrightarrow> extends s0 s2"
  unfolding extends_def by (auto intro: prefix_order.order_trans)

lemma list_all_drop_snoc:
  "list_all P (drop n xs) \<Longrightarrow> P x \<Longrightarrow> list_all P (drop n (xs @ [x]))"
  by (cases "n - length xs") simp_all

lemma list_all_drop_single: "P x \<Longrightarrow> list_all P (drop m [x])"
  by (cases m) simp_all

lemma extends_emit:
  "extends s0 s \<Longrightarrow> extends s0 (fst s, (snd s)\<lparr>trace := trace (snd s) @ [c]\<rparr>)"
  by (simp add: extends_def)

lemma extends_new:
  "extends s0 s \<Longrightarrow> extends s0 (fst s, (snd s)\<lparr>heap := heap (snd s) @ [ob]\<rparr>)"
  by (simp add: extends_def)

lemma wired_emit:
  "wired n k s \<Longrightarrow> wiredCall (eventDispatcher (fst s)) c \<Longrightarrow>
   wired n k (fst s, (snd s)\<lparr>trace := trace (snd s) @ [c]\<rparr>)"
  by (simp add: wired_def list_all_drop_single)

lemma wired_new:
  "wired n k s \<Longrightarrow> wiredObj (eventDispatcher (fst s)) ob \<Longrightarrow>
   wired n k (fst s, (snd s)\<lparr>heap := heap (snd s) @ [ob]\<rparr>)"
  by (simp add: wired_def list_all_drop_single)

lemma inv_emit:
  "invar q z L D G n k s0 s \<Longrightarrow> (q \<longrightarrow> \<not> loud c) \<Longrightarrow> wiredCall (eventDispatcher (fst s)) c \<Longrightarrow>
   invar q z L D G n k s0 (fst s, (snd s)\<lparr>trace := trace (snd s) @ [c]\<rparr>)"
  unfolding invar_def
  by (intro conjI extends_emit wired_emit) simp_all

lemma inv_new:
  "invar q z L D G n k s0 s \<Longrightarrow> wiredObj (eventDispatcher (fst s)) (Obj K ds) \<Longrightarrow>
   invar q z L D G n k s0 (fst s, (snd s)\<lparr>heap := heap (snd s) @ [Obj K ds]\<rparr>)"
  unfolding invar_def
  by (intro conjI extends_new wired_new) simp_all

lemma inv_set_db:
  "invar q z L D G n k s0 s \<Longrightarrow> db (fst s) = None \<Longrightarrow>
   invar q z L True G n k s0 ((fst s)\<lparr>db := Some d\<rparr>, snd s)"
  by (clarsimp simp: invar_def extends_def wired_def)

lemma inv_set_app:
  "invar q z L D G n k s0 s \<Longrightarrow> app (fst s) = None \<Longrightarrow>
   invar q z L D G n k s0 ((fst s)\<lparr>app := a\<rparr>, snd s)"
  by (clarsimp simp: invar_def extends_def wired_def)

lemma wiredObj_None: "list_all (wiredObj None) xs \<Longrightarrow> list_all (wiredObj d) xs"
  by (induction xs) (simp_all add: wiredObj_def)

lemma wiredCall_None: "list_all (wiredCall None) xs \<Longrightarrow> list_all (wiredCall d) xs"
proof (induction xs)
  case (Cons c cs) then show ?case by (cases c) simp_all
qed simp

lemma inv_set_dispatcher:
  "invar q False L D G n k s0 s \<Longrightarrow> eventDispatcher (fst s) = None \<Longrightarrow>
   invar q False L D G n k s0 ((fst s)\<lparr>eventDispatcher := d\<rparr>, snd s)"
  by (clarsimp simp: invar_def extends_def wired_def wiredObj_None wiredCall_None)

lemma inv_relax: "invar q z L D G n k s0 s \<Longrightarrow> invar q False L D G n k s0 s"
  by (simp add: invar_def)

lemma Debug_inv: "triple (invar q z L D G n k s0) (Debug msg) (\<lambda>_. invar q z L D G n k s0) E"
  unfolding Debug_def
  apply (rule triple_bind [OF triple_getC [where Q = "\<lambda>_. invar q z L D G n k s0"]])
   apply assumption
  apply (rule triple_emit)
  apply (rule inv_emit)
    apply simp_all
  done

lemma made_new:
  "invar q z L D G n k s0 s \<Longrightarrow>
   made K s0 (Some (length (heap (snd s)))) (fst s, (snd s)\<lparr>heap := heap (snd s) @ [Obj K ds]\<rparr>)"
  by (clarsimp simp: made_def invar_def extends_def prefix_def nth_append)

lemma new_inv:
  "K \<noteq> KMessageService \<Longrightarrow>
   triple (invar q z L D G n k s0) (new K ds) (\<lambda>x s. invar q z L D G n k s0 s \<and> made K s0 x s) E"
  by (rule triple_new) (simp add: inv_new made_new wiredObj_def)

lemma triple_pre: "triple P' m Q E \<Longrightarrow> (\<And>s. P s \<Longrightarrow> P' s) \<Longrightarrow> triple P m Q E"
  by (erule triple_weaken)

lemma triple_gen_pre:
  assumes "\<And>s. P s \<Longrightarrow> B" and "B \<Longrightarrow> triple P m Q E"
  shows "triple P m Q E"
proof (rule tripleI)
  fix s x s' assume "P s" "m s = Inr (x, s')"
  with assms show "Q x s'" by (blast intro: tripleD)
next
  fix s e assume "P s" "m s = Inl e"
  with assms show "E e" by (blast intro: tripleE)
qed

lemma triple_if:
  "(c \<Longrightarrow> triple P a Q E) \<Longrightarrow> (\<not> c \<Longrightarrow> triple P b Q E) \<Longrightarrow>
   triple P (if c then a else b) Q E"
  by simp

lemma triple_case_option:
  "(x = None \<Longrightarrow> triple P a Q E) \<Longrightarrow> (\<And>y. x = Some y \<Longrightarrow> triple P (b y) Q E) \<Longrightarrow>
   triple P (case x of None \<Rightarrow> a | Some y \<Rightarrow> b y) Q E"
  by (cases x) simp_all

lemma new_keeps:
  "K \<noteq> KMessageService \<Longrightarrow>
   triple (invar q z L D G n k s0) (new K ds) (\<lambda>_. invar q z L D G n k s0) E"
  by (rule triple_post [OF new_inv]) simp_all

lemma NewCloudLoggingWriter_inv:
  "triple (invar q z L D G n k s0) NewCloudLoggingWriter (\<lambda>_. invar q z L D G n k s0) E"
  unfolding NewCloudLoggingWriter_def
  apply (rule triple_bind [OF triple_getW [where Q = "\<lambda>_. invar q z L D G n k s0"]])
   apply assumption
  apply (simp add: triple_ret new_keeps)
  done

lemma logger_fn_inv:
  "triple (invar q z L D G n k s0) logger_fn
     (\<lambda>x s. invar q z L D G n k s0 s \<and> made KZerologLogger s0 x s) (allowed q L D G)"
  unfolding logger_fn_def isLocal_def
  apply (rule triple_bind [OF new_keeps])
   apply simp
  apply (rule triple_bind [OF triple_getW [where Q = "\<lambda>b s. invar q z L D G n k s0 s \<and> (L \<longrightarrow> b)"]])
   apply (simp add: invar_def)
  apply (rule triple_bind [where R = "\<lambda>_. invar q z L D G n k s0"])
   apply (rule triple_if)
    apply (rule triple_gen_pre [where B = "\<not> L"])
     apply simp
    apply (rule triple_pre [where P' = "invar q z L D G n k s0"])
     apply (rule triple_bind [OF NewCloudLoggingWriter_inv])
     apply (rule triple_case_option)
      apply (simp add: triple_exit)
     apply (simp add: triple_ret)
    apply simp
   apply (simp add: triple_ret)
  apply (rule new_inv)
  apply simp
  done

lemma Logger_inv:
  "triple (invar q z L D G n k s0) Logger
     (\<lambda>x s. invar q z L D G n k s0 s \<and> made KZerologLogger s0 x s) (allowed q L D G)"
  unfolding Logger_def
  by (rule triple_bind [OF Debug_inv]) (rule logger_fn_inv)

lemma resolveAll_inv:
  "(\<And>m. m \<in> set ms \<Longrightarrow> triple I m (\<lambda>_. I) E) \<Longrightarrow> triple I (resolveAll ms) (\<lambda>_. I) E"
proof (induction ms)
  case Nil
  show ?case by (simp add: triple_ret)
next
  case (Cons m ms)
  show ?case
    apply simp
    apply (rule triple_bind [OF Cons.prems])
     apply simp
    apply (rule triple_bind [OF Cons.IH])
     apply (simp add: Cons.prems)
    apply (simp add: triple_ret)
    done
qed

lemma construct_inv:
  assumes "K \<noteq> KMessageService"
    and "\<And>m. m \<in> set args \<Longrightarrow>
           triple (invar q z L D G n k s0) m (\<lambda>_. invar q z L D G n k s0) E"
  shows "triple (invar q z L D G n k s0) (construct msg K args)
           (\<lambda>x s. invar q z L D G n k s0 s \<and> made K s0 x s) E"
  unfolding construct_def
  apply (rule triple_bind [OF Debug_inv])
  apply (rule triple_bind [OF resolveAll_inv])
   apply (erule assms(2))
  apply (rule new_inv [OF assms(1)])
  done

lemma keeps: "triple P m (\<lambda>x s. P s \<and> Q x s) E \<Longrightarrow> triple P m (\<lambda>_. P) E"
  by (erule triple_post) simp

lemma Tracer_inv:
  "triple (invar q z L D G n k s0) Tracer
     (\<lambda>x s. invar q z L D G n k s0 s \<and> made KOtelLogger s0 x s) (allowed q L D G)"
  unfolding Tracer_def
  by (rule construct_inv) (auto intro: keeps [OF Logger_inv])

lemma bindM_assoc: "bindM (bindM m f) g = bindM m (\<lambda>x. bindM (f x) g)"
  by (rule ext) (simp add: bindM_def split: sum.splits)

lemma bindM_ret: "bindM (ret x) f = f x"
  by (rule ext) (simp add: bindM_def ret_def)

lemma invar_refl:
  "wired n k s \<Longrightarrow> (L \<longrightarrow> getenv (outside (snd s)) ''ENV'' = ''local'') \<Longrightarrow>
   (D \<longrightarrow> db (fst s) \<noteq> None) \<Longrightarrow> (G \<longrightarrow> benign (outside (snd s))) \<Longrightarrow>
   invar q z L D G n k s s"
  by (simp add: invar_def extends_refl)

lemma invar_restart: "invar q z L D G n k s0 s \<Longrightarrow> invar q' z' L D G n k s s"
  by (simp add: invar_def extends_refl)

lemma invar_trans:
  "invar q z L D G n k s0 s1 \<Longrightarrow> invar q' z' L' D' G' n k s1 s2 \<Longrightarrow>
   invar (q \<and> q') (z \<and> z') L' D' G' n k s0 s2"
  apply (clarsimp simp: invar_def)
  apply (erule (1) extends_trans)
  done

lemma invar_flags:
  "invar q z L D G n k s0 s \<Longrightarrow> (q' \<longrightarrow> q) \<Longrightarrow> (z' \<longrightarrow> z) \<Longrightarrow> (L' \<longrightarrow> L) \<Longrightarrow> (D' \<longrightarrow> D) \<Longrightarrow>
   (G' \<longrightarrow> G) \<Longrightarrow> invar q' z' L' D' G' n k s0 s"
  by (simp add: invar_def)

lemma invar_init:
  "invar q z False False False (length (heap (snd s))) (length (trace (snd s))) s s"
  by (simp add: invar_def extends_refl wired_def)

text \<open>Primitive steps leave the container alone.\<close>

lemma Debug_frame:
  "triple (\<lambda>s. invar q z L D G n k s0 s \<and> C (fst s)) (Debug msg)
          (\<lambda>_ s. invar q z L D G n k s0 s \<and> C (fst s)) E"
  unfolding Debug_def
  apply (rule triple_bind [OF triple_getC [where Q = "\<lambda>_ s. invar q z L D G n k s0 s \<and> C (fst s)"]])
   apply assumption
  apply (rule triple_emit)
  apply (simp add: inv_emit)
  done

lemma wiredObj_other: "K \<noteq> KMessageService \<Longrightarrow> wiredObj d (Obj K ds)"
  by (simp add: wiredObj_def)

lemma new_frame:
  "K \<noteq> KMessageService \<Longrightarrow>
   triple (\<lambda>s. invar q z L D G n k s0 s \<and> C (fst s)) (new K ds)
          (\<lambda>x s. invar q z L D G n k s0 s \<and> C (fst s) \<and> made K s0 x s) E"
  apply (rule triple_new)
  apply (erule conjE)
  apply (rule conjI)
   apply (erule inv_new)
   apply (erule wiredObj_other)
  apply (rule conjI)
   apply simp
  apply (erule made_new)
  done

lemma new_frame_keeps:
  "K \<noteq> KMessageService \<Longrightarrow>
   triple (\<lambda>s. invar q z L D G n k s0 s \<and> C (fst s)) (new K ds)
          (\<lambda>_ s. invar q z L D G n k s0 s \<and> C (fst s)) E"
  by (rule triple_post [OF new_frame]) simp_all

lemma emit_frame:
  "\<not> loud c \<Longrightarrow>
   triple (\<lambda>s. invar q z L D G n k s0 s \<and> C (fst s)) (emit c)
          (\<lambda>_ s. invar q z L D G n k s0 s \<and> C (fst s)) E"
  apply (rule triple_emit)
  apply (cases c)
       apply (simp_all add: inv_emit)
  done

lemma triple_pure: "(B \<Longrightarrow> triple P m Q E) \<Longrightarrow> triple (\<lambda>s. P s \<and> B) m Q E"
  by (rule triple_gen_pre [where B = B]) (auto elim: triple_pre)

lemma made_nonnil: "made K s0 x s \<Longrightarrow> x \<noteq> None"
  by (auto simp: made_def)

lemma new_frame_nonnil:
  "K \<noteq> KMessageService \<Longrightarrow>
   triple (\<lambda>s. invar q z L D G n k s0 s \<and> C (fst s)) (new K ds)
          (\<lambda>x s. (invar q z L D G n k s0 s \<and> C (fst s)) \<and> x \<noteq> None) E"
  by (rule triple_post [OF new_frame [where C = C]]) (auto dest: made_nonnil)

lemma gormOpen_frame:
  "triple (\<lambda>s. invar q z L D G n k s0 s \<and> C (fst s)) (gormOpen gl)
          (\<lambda>x s. (invar q z L D G n k s0 s \<and> C (fst s)) \<and> (G \<longrightarrow> x \<noteq> None)) E"
  unfolding gormOpen_def
  apply (rule triple_bind [OF triple_getW
        [where Q = "\<lambda>err s. (invar q z L D G n k s0 s \<and> C (fst s)) \<and> (G \<longrightarrow> \<not> err)"]])
   apply (clarsimp simp: invar_def benign_def)
  apply (rule triple_pure)
  apply (rule triple_if)
   apply (simp add: triple_ret)
  apply (rule triple_post [OF new_frame_nonnil [where C = C]])
   apply simp
  apply simp
  done

lemma migrate_frame:
  "triple (\<lambda>s. invar q z L False G n k s0 s \<and> C (fst s)) (migrate d e)
          (\<lambda>x s. invar q z L False G n k s0 s \<and> C (fst s)) (allowed q L False G)"
  unfolding migrate_def
  apply (rule triple_bind [OF triple_getW
        [where Q = "\<lambda>err s. (invar q z L False G n k s0 s \<and> C (fst s)) \<and> (G \<longrightarrow> \<not> err)"]])
   apply (clarsimp simp: invar_def benign_def)
  apply (rule triple_pure)
  apply (rule triple_if)
   apply (simp add: triple_exit)
  apply (rule emit_frame [where C = C])
  apply simp
  done

lemma invar_D: "invar q z L D G n k s0 s \<Longrightarrow> db (fst s) \<noteq> None \<Longrightarrow> invar q z L True G n k s0 s"
  by (simp add: invar_def)

lemma DB_inv:
  "triple (invar q z L D G n k s0) DB
     (\<lambda>x s. invar q z L D G n k s0 s \<and> x \<noteq> None \<and> db (fst s) = x) (allowed q L D G)"
  unfolding DB_def
  apply (rule triple_bind [OF triple_getC [where Q = "\<lambda>c s. invar q z L D G n k s0 s \<and> db (fst s) = c"]])
   apply simp
  apply (rule triple_case_option)
   prefer 2
   apply (simp add: triple_ret)
  apply (rule triple_gen_pre [where B = "\<not> D"])
   apply (clarsimp simp: invar_def)
  apply (rule triple_weaken [where E' = "allowed q L False G"
         and P' = "\<lambda>s. invar q z L False G n k s0 s \<and> db (fst s) = None"
         and Q' = "\<lambda>x s. invar q z L True G n k s0 s \<and> x \<noteq> None \<and> db (fst s) = x"])
     prefer 2 apply simp
    prefer 2 apply (simp add: invar_flags)
   prefer 2 apply simp
  apply (rule triple_bind [OF new_frame_keeps [where C = "\<lambda>c. db c = None"]])
   apply simp
  apply (rule triple_bind [OF Debug_frame [where C = "\<lambda>c. db c = None"]])
  apply (rule triple_bind [OF gormOpen_frame [where C = "\<lambda>c. db c = None"]])
  apply (rule triple_pure)
  apply (rule triple_case_option)
   apply (simp add: triple_exit)
  apply (rule triple_bind [OF triple_setC
        [where Q = "\<lambda>_ s. invar q z L False G n k s0 s \<and> db (fst s) \<noteq> None"]])
   apply (erule conjE)
   apply (rule conjI)
    apply (rule invar_flags [OF inv_set_db])
          apply assumption+
        apply simp
       apply simp
      apply simp
     apply simp
    apply simp
   apply simp
  apply (rule triple_bind [OF Debug_frame [where C = "\<lambda>c. db c \<noteq> None"]])
  apply (rule triple_bind [OF migrate_frame [where C = "\<lambda>c. db c \<noteq> None"]])+
  apply (rule triple_getC)
  apply (clarsimp simp: invar_def)
  apply (clarsimp simp: invar_def)
  apply simp
  done

lemma appUse_frame:
  "K \<noteq> KMessageService \<Longrightarrow>
   triple (\<lambda>s. invar q z L D G n k s0 s \<and> C (fst s)) (appUse a K)
          (\<lambda>_ s. invar q z L D G n k s0 s \<and> C (fst s)) E"
  unfolding appUse_def
  apply (rule triple_bind [OF new_frame_keeps [where C = C]])
   apply assumption
  apply (rule emit_frame [where C = C])
  apply simp
  done

lemma App_inv:
  "triple (invar q z L D G n k s0) App
     (\<lambda>x s. invar q z L D G n k s0 s \<and> x \<noteq> None \<and> app (fst s) = x) E"
  unfolding App_def
  apply (rule triple_bind [OF triple_getC [where Q = "\<lambda>c s. invar q z L D G n k s0 s \<and> app (fst s) = c"]])
   apply simp
  apply (rule triple_case_option)
   prefer 2
   apply (simp add: triple_ret)
  apply simp
  apply (rule triple_bind [OF Debug_frame [where C = "\<lambda>c. app c = None"]])
  apply (rule triple_bind [OF new_frame_nonnil [where C = "\<lambda>c. app c = None"]])
   apply simp
  apply (rule triple_pure)
  apply (rule triple_bind [OF triple_getW [where Q = "\<lambda>_ s. invar q z L D G n k s0 s \<and> app (fst s) = None"]])
   apply assumption
  apply (rule triple_bind [where R = "\<lambda>_ s. invar q z L D G n k s0 s \<and> app (fst s) = None"])
   apply (rule triple_if)
    apply (rule appUse_frame [where C = "\<lambda>c. app c = None"])
    apply simp
   apply (simp add: triple_ret)
  apply (rule triple_bind [OF appUse_frame [where C = "\<lambda>c. app c = None"]])
   apply simp
  apply (rule triple_bind)
   prefer 2
   apply (rule triple_ret)
   apply assumption
  apply (rule triple_setC)
  apply (simp add: inv_set_app)
  done

lemma MessageHandlerValidator_inv:
  "triple (invar q z L D G n k s0) MessageHandlerValidator
     (\<lambda>x s. invar q z L D G n k s0 s \<and> made KMessageHandlerValidator s0 x s) (allowed q L D G)"
  unfolding MessageHandlerValidator_def
  by (rule construct_inv) (auto intro: keeps [OF Logger_inv] keeps [OF Tracer_inv])

lemma HeartbeatHandlerValidator_inv:
  "triple (invar q z L D G n k s0) HeartbeatHandlerValidator
     (\<lambda>x s. invar q z L D G n k s0 s \<and> made KHeartbeatHandlerValidator s0 x s) (allowed q L D G)"
  unfolding HeartbeatHandlerValidator_def
  by (rule construct_inv) (auto intro: keeps [OF Logger_inv] keeps [OF Tracer_inv])

lemma MessageThreadHandlerValidator_inv:
  "triple (invar q z L D G n k s0) MessageThreadHandlerValidator
     (\<lambda>x s. invar q z L D G n k s0 s \<and> made KMessageThreadHandlerValidator s0 x s) (allowed q L D G)"
  unfolding MessageThreadHandlerValidator_def
  by (rule construct_inv) (auto intro: keeps [OF Logger_inv] keeps [OF Tracer_inv])

lemma MessageRepository_inv:
  "triple (invar q z L D G n k s0) MessageRepository
     (\<lambda>x s. invar q z L D G n k s0 s \<and> made KGormMessageRepository s0 x s) (allowed q L D G)"
  unfolding MessageRepository_def
  by (rule construct_inv)
     (auto intro: keeps [OF Logger_inv] keeps [OF Tracer_inv] keeps [OF DB_inv])

lemma MessageThreadRepository_inv:
  "triple (invar q z L D G n k s0) MessageThreadRepository
     (\<lambda>x s. invar q z L D G n k s0 s \<and> made KGormMessageThreadRepository s0 x s) (allowed q L D G)"
  unfolding MessageThreadRepository_def
  by (rule construct_inv)
     (auto intro: keeps [OF Logger_inv] keeps [OF Tracer_inv] keeps [OF DB_inv])

lemma EventRepository_inv:
  "triple (invar q z L D G n k s0) EventRepository
     (\<lambda>x s. invar q z L D G n k s0 s \<and> made KGormEventRepository s0 x s) (allowed q L D G)"
  unfolding EventRepository_def
  by (rule construct_inv)
     (auto intro: keeps [OF Logger_inv] keeps [OF Tracer_inv] keeps [OF DB_inv])

lemma EventListenerLogRepository_inv:
  "triple (invar q z L D G n k s0) EventListenerLogRepository
     (\<lambda>x s. invar q z L D G n k s0 s \<and> made KGormEventListenerLogRepository s0 x s) (allowed q L D G)"
  unfolding EventListenerLogRepository_def
  by (rule construct_inv)
     (auto intro: keeps [OF Logger_inv] keeps [OF Tracer_inv] keeps [OF DB_inv])

lemma HeartbeatRepository_inv:
  "triple (invar q z L D G n k s0) HeartbeatRepository
     (\<lambda>x s. invar q z L D G n k s0 s \<and> made KGormHeartbeatRepository s0 x s) (allowed q L D G)"
  unfolding HeartbeatRepository_def
  by (rule construct_inv)
     (auto intro: keeps [OF Logger_inv] keeps [OF Tracer_inv] keeps [OF DB_inv])

lemma HeartbeatService_inv:
  "triple (invar q z L D G n k s0) HeartbeatService
     (\<lambda>x s. invar q z L D G n k s0 s \<and> made KHeartbeatService s0 x s) (allowed q L D G)"
  unfolding HeartbeatService_def
  by (rule construct_inv)
     (auto intro: keeps [OF Logger_inv] keeps [OF Tracer_inv] keeps [OF HeartbeatRepository_inv])

lemma MessageThreadService_inv:
  "triple (invar q z L D G n k s0) MessageThreadService
     (\<lambda>x s. invar q z L D G n k s0 s \<and> made KMessageThreadService s0 x s) (allowed q L D G)"
  unfolding MessageThreadService_def
  by (rule construct_inv)
     (auto intro: keeps [OF Logger_inv] keeps [OF Tracer_inv] keeps [OF MessageThreadRepository_inv])

lemma HeartbeatHandler_inv:
  "triple (invar q z L D G n k s0) HeartbeatHandler
     (\<lambda>x s. invar q z L D G n k s0 s \<and> made KHeartbeatHandler s0 x s) (allowed q L D G)"
  unfolding HeartbeatHandler_def
  by (rule construct_inv)
     (auto intro: keeps [OF Logger_inv] keeps [OF Tracer_inv]
        keeps [OF HeartbeatHandlerValidator_inv] keeps [OF HeartbeatService_inv])

lemma MessageThreadHandler_inv:
  "triple (invar q z L D G n k s0) MessageThreadHandler
     (\<lambda>x s. invar q z L D G n k s0 s \<and> made KMessageThreadHandler s0 x s) (allowed q L D G)"
  unfolding MessageThreadHandler_def
  by (rule construct_inv)
     (auto intro: keeps [OF Logger_inv] keeps [OF Tracer_inv]
        keeps [OF MessageThreadHandlerValidator_inv] keeps [OF MessageThreadService_inv])

lemma EventDispatcher_unfold:
  "EventDispatcher s =
     (case eventDispatcher (fst s) of
        Some d \<Rightarrow> Inr (Some d, s)
      | None \<Rightarrow>
          (case construct ''creating *services.EventDispatcher'' KEventDispatcher
                  [Logger, Tracer, EventRepository] s of
             Inl e \<Rightarrow> Inl e
           | Inr (d, s1) \<Rightarrow> Inr (d, ((fst s1)\<lparr>eventDispatcher := d\<rparr>, snd s1))))"
  by (simp add: EventDispatcher_def bindM_def getC_def setC_def ret_def
      split: option.splits sum.splits)

lemma EventDispatcher_build:
  "triple (invar q z L D G n k s1)
     (construct ''creating *services.EventDispatcher'' KEventDispatcher
        [Logger, Tracer, EventRepository])
     (\<lambda>x s. invar q z L D G n k s1 s \<and> made KEventDispatcher s1 x s) (allowed q L D G)"
  by (rule construct_inv)
     (auto intro: keeps [OF Logger_inv] keeps [OF Tracer_inv] keeps [OF EventRepository_inv])

lemma EventDispatcher_inv:
  "triple (invar q False L D G n k s0) EventDispatcher
     (\<lambda>x s. invar q False L D G n k s0 s \<and> x \<noteq> None \<and> eventDispatcher (fst s) = x)
     (allowed q L D G)"
proof (rule tripleI)
  fix s x s'
  assume I: "invar q False L D G n k s0 s" and run: "EventDispatcher s = Inr (x, s')"
  show "invar q False L D G n k s0 s' \<and> x \<noteq> None \<and> eventDispatcher (fst s') = x"
  proof (cases "eventDispatcher (fst s)")
    case (Some d)
    with run have "x = Some d" "s' = s" by (simp_all add: EventDispatcher_unfold)
    with I Some show ?thesis by simp
  next
    case None
    with run obtain s1 where
      c: "construct ''creating *services.EventDispatcher'' KEventDispatcher
            [Logger, Tracer, EventRepository] s = Inr (x, s1)"
      and s': "s' = ((fst s1)\<lparr>eventDispatcher := x\<rparr>, snd s1)"
      by (auto simp: EventDispatcher_unfold split: sum.splits)
    have "invar q True L D G n k s s" by (rule invar_restart [OF I])
    from tripleD [OF EventDispatcher_build this c]
    have 1: "invar q True L D G n k s s1" and 2: "made KEventDispatcher s x s1" by simp_all
    from invar_trans [OF I 1] have 3: "invar q False L D G n k s0 s1" by simp
    from 1 None have 4: "eventDispatcher (fst s1) = None" by (simp add: invar_def)
    show ?thesis unfolding s' using inv_set_dispatcher [OF 3 4] made_nonnil [OF 2] by simp
  qed
next
  fix s e
  assume I: "invar q False L D G n k s0 s" and "EventDispatcher s = Inl e"
  then have "construct ''creating *services.EventDispatcher'' KEventDispatcher
            [Logger, Tracer, EventRepository] s = Inl e"
    by (auto simp: EventDispatcher_unfold split: option.splits sum.splits)
  from tripleE [OF EventDispatcher_build invar_restart [OF I] this]
  show "allowed q L D G e" .
qed

lemma MessageService_flat:
  "MessageService =
     bindM (Debug ''creating *services.MessageService'') (\<lambda>_.
     bindM Logger (\<lambda>l. bindM Tracer (\<lambda>t. bindM MessageRepository (\<lambda>r.
     bindM EventDispatcher (\<lambda>d. new KMessageService [l, t, r, d])))))"
  by (simp add: MessageService_def construct_def bindM_assoc bindM_ret)

lemma serviceOn_new:
  "serviceOn d (Some (length (heap (snd s))))
     (fst s, (snd s)\<lparr>heap := heap (snd s) @ [Obj KMessageService [l, t, r, d]]\<rparr>)"
  by (simp add: serviceOn_def)

lemma MessageService_inv:
  "triple (invar q False L D G n k s0) MessageService
     (\<lambda>x s. invar q False L D G n k s0 s \<and>
        (made KMessageService s0 x s \<and> eventDispatcher (fst s) \<noteq> None \<and>
         serviceOn (eventDispatcher (fst s)) x s))
     (allowed q L D G)"
  unfolding MessageService_flat
  apply (rule triple_bind [OF Debug_inv])
  apply (rule triple_bind [OF keeps [OF Logger_inv]])
  apply (rule triple_bind [OF keeps [OF Tracer_inv]])
  apply (rule triple_bind [OF keeps [OF MessageRepository_inv]])
  apply (rule triple_bind [OF EventDispatcher_inv])
  apply (rule triple_new)
  apply (elim conjE)
  apply (intro conjI)
     apply (erule inv_new)
     apply (simp add: wiredObj_def)
    apply (erule made_new)
   apply simp
  apply (simp add: serviceOn_new)
  done

lemma MessageHandler_inv:
  "triple (invar q False L D G n k s0) MessageHandler
     (\<lambda>x s. invar q False L D G n k s0 s \<and> made KMessageHandler s0 x s) (allowed q L D G)"
  unfolding MessageHandler_def
  by (rule construct_inv)
     (auto intro: keeps [OF Logger_inv] keeps [OF Tracer_inv]
        keeps [OF MessageHandlerValidator_inv] keeps [OF MessageService_inv])

lemma dispatcherSubscribe_inv:
  "triple (\<lambda>s. invar False z L D G n k s0 s \<and> (d \<noteq> None \<and> eventDispatcher (fst s) = d))
     (dispatcherSubscribe d ev h)
     (\<lambda>_ s. invar False z L D G n k s0 s) (allowed False L D G)"
  unfolding dispatcherSubscribe_def
  apply (rule triple_bind [OF triple_getW
        [where Q = "\<lambda>err s. (invar False z L D G n k s0 s \<and>
                      (d \<noteq> None \<and> eventDispatcher (fst s) = d)) \<and> (G \<longrightarrow> \<not> err)"]])
   apply (clarsimp simp: invar_def benign_def)
  apply (rule triple_pure)
  apply (rule triple_if)
   apply (simp add: triple_exit)
  apply (rule triple_emit)
  apply (erule conjE)
  apply (erule inv_emit)
   apply simp
  apply simp
  done

lemma subscribeRoutes_inv:
  "triple (invar False False L D G n k s0) (subscribeRoutes rs)
     (\<lambda>_. invar False False L D G n k s0) (allowed False L D G)"
proof (induction rs)
  case Nil
  show ?case by (simp add: triple_ret)
next
  case (Cons r rs)
  obtain ev h where r: "r = (ev, h)" by (cases r)
  show ?case
    unfolding r subscribeRoutes.simps
    apply (rule triple_bind [OF EventDispatcher_inv])
    apply (rule triple_bind [OF dispatcherSubscribe_inv])
    apply (rule Cons.IH)
    done
qed

lemma NewMessageListener_inv:
  "triple (invar q z L D G n k s0) (NewMessageListener lg tr sv rp)
     (\<lambda>_. invar q z L D G n k s0) E"
  unfolding NewMessageListener_def
  apply (rule triple_bind [OF new_keeps])
   apply simp
  apply (rule triple_bind [OF triple_getW [where Q = "\<lambda>_. invar q z L D G n k s0"]])
   apply assumption
  apply (simp add: triple_ret)
  done

lemma NewMessageThreadListener_inv:
  "triple (invar q z L D G n k s0) (NewMessageThreadListener lg tr sv rp)
     (\<lambda>_. invar q z L D G n k s0) E"
  unfolding NewMessageThreadListener_def
  apply (rule triple_bind [OF new_keeps])
   apply simp
  apply (rule triple_bind [OF triple_getW [where Q = "\<lambda>_. invar q z L D G n k s0"]])
   apply assumption
  apply (simp add: triple_ret)
  done

lemma NewHeartbeatListener_inv:
  "triple (invar q z L D G n k s0) (NewHeartbeatListener lg tr sv)
     (\<lambda>_. invar q z L D G n k s0) E"
  unfolding NewHeartbeatListener_def
  apply (rule triple_bind [OF new_keeps])
   apply simp
  apply (rule triple_bind [OF triple_getW [where Q = "\<lambda>_. invar q z L D G n k s0"]])
   apply assumption
  apply (simp add: triple_ret)
  done

lemma RegisterMessageListeners_inv:
  "triple (invar False False L D G n k s0) RegisterMessageListeners
     (\<lambda>_. invar False False L D G n k s0) (allowed False L D G)"
  unfolding RegisterMessageListeners_def
  apply (rule triple_bind [OF Debug_inv])
  apply (rule triple_bind [OF keeps [OF Logger_inv]])
  apply (rule triple_bind [OF keeps [OF Tracer_inv]])
  apply (rule triple_bind [OF keeps [OF MessageService_inv]])
  apply (rule triple_bind [OF keeps [OF EventListenerLogRepository_inv]])
  apply (rule triple_bind [OF NewMessageListener_inv])
  apply (rule subscribeRoutes_inv)
  done

lemma RegisterMessageThreadListeners_inv:
  "triple (invar False False L D G n k s0) RegisterMessageThreadListeners
     (\<lambda>_. invar False False L D G n k s0) (allowed False L D G)"
  unfolding RegisterMessageThreadListeners_def
  apply (rule triple_bind [OF Debug_inv])
  apply (rule triple_bind [OF keeps [OF Logger_inv]])
  apply (rule triple_bind [OF keeps [OF Tracer_inv]])
  apply (rule triple_bind [OF keeps [OF MessageThreadService_inv]])
  apply (rule triple_bind [OF keeps [OF EventListenerLogRepository_inv]])
  apply (rule triple_bind [OF NewMessageThreadListener_inv])
  apply (rule subscribeRoutes_inv)
  done

lemma RegisterHeartbeatListeners_inv:
  "triple (invar False False L D G n k s0) RegisterHeartbeatListeners
     (\<lambda>_. invar False False L D G n k s0) (allowed False L D G)"
  unfolding RegisterHeartbeatListeners_def
  apply (rule triple_bind [OF Debug_inv])
  apply (rule triple_bind [OF keeps [OF Logger_inv]])
  apply (rule triple_bind [OF keeps [OF Tracer_inv]])
  apply (rule triple_bind [OF keeps [OF HeartbeatService_inv]])
  apply (rule triple_bind [OF NewHeartbeatListener_inv])
  apply (rule subscribeRoutes_inv)
  done

lemma emit_inv:
  "(\<And>d. wiredCall d c) \<Longrightarrow>
   triple (invar False z L D G n k s0) (emit c) (\<lambda>_. invar False z L D G n k s0) E"
  apply (rule triple_emit)
  apply (erule inv_emit)
   apply simp
  apply simp
  done

lemma registerRoutes_inv:
  assumes "triple (invar False z L D G n k s0) handlerOf
             (\<lambda>_. invar False z L D G n k s0) (allowed False L D G)"
  shows "triple (invar False z L D G n k s0) (registerRoutes msg handlerOf)
     (\<lambda>_. invar False z L D G n k s0) (allowed False L D G)"
  unfolding registerRoutes_def
  apply (rule triple_bind [OF Debug_inv])
  apply (rule triple_bind [OF assms])
  apply (rule triple_bind [OF keeps [OF App_inv]])
  apply (rule emit_inv)
  apply simp
  done

lemma RegisterSwaggerRoutes_inv:
  "triple (invar False z L D G n k s0) RegisterSwaggerRoutes
     (\<lambda>_. invar False z L D G n k s0) (allowed False L D G)"
  unfolding RegisterSwaggerRoutes_def
  apply (rule triple_bind [OF Debug_inv])
  apply (rule triple_bind [OF keeps [OF App_inv]])
  apply (rule emit_inv)
  apply simp
  done

lemma RegisterMessageRoutes_inv:
  "triple (invar False False L D G n k s0) RegisterMessageRoutes
     (\<lambda>_. invar False False L D G n k s0) (allowed False L D G)"
  unfolding RegisterMessageRoutes_def
  by (rule registerRoutes_inv [OF keeps [OF MessageHandler_inv]])

lemma RegisterMessageThreadRoutes_inv:
  "triple (invar False False L D G n k s0) RegisterMessageThreadRoutes
     (\<lambda>_. invar False False L D G n k s0) (allowed False L D G)"
  unfolding RegisterMessageThreadRoutes_def
  by (rule registerRoutes_inv [OF keeps [OF MessageThreadHandler_inv]])

lemma RegisterHeartbeatRoutes_inv:
  "triple (invar False False L D G n k s0) RegisterHeartbeatRoutes
     (\<lambda>_. invar False False L D G n k s0) (allowed False L D G)"
  unfolding RegisterHeartbeatRoutes_def
  by (rule registerRoutes_inv [OF keeps [OF HeartbeatHandler_inv]])

lemma inv_set_logger:
  "invar q z L D G n k s0 s \<Longrightarrow> invar q z L D G n k s0 ((fst s)\<lparr>logger := l\<rparr>, snd s)"
  by (clarsimp simp: invar_def extends_def wired_def)

lemma compose_inv:
  "triple (invar False False L D G n k s0) compose
     (\<lambda>_. invar False False L D G n k s0) (allowed False L D G)"
  unfolding compose_def
  apply (rule triple_bind [OF keeps [OF logger_fn_inv]])
  apply (rule triple_bind [OF new_keeps])
   apply simp
  apply (rule triple_bind [OF triple_setC [where Q = "\<lambda>_. invar False False L D G n k s0"]])
   apply (erule inv_set_logger)
  apply (rule triple_bind [OF RegisterMessageListeners_inv])
  apply (rule triple_bind [OF RegisterMessageRoutes_inv])
  apply (rule triple_bind [OF RegisterMessageThreadRoutes_inv])
  apply (rule triple_bind [OF RegisterMessageThreadListeners_inv])
  apply (rule triple_bind [OF RegisterHeartbeatRoutes_inv])
  apply (rule triple_bind [OF RegisterHeartbeatListeners_inv])
  apply (rule RegisterSwaggerRoutes_inv)
  done

lemma made_kindAt: "made K s0 x s \<Longrightarrow> kindAt K x s"
  by (auto simp: made_def kindAt_def)

lemma invar_extends: "invar q z L D G n k s s' \<Longrightarrow> extends s s'"
  by (simp add: invar_def)

lemma extends_nth:
  "extends s s' \<Longrightarrow> a < length (heap (snd s)) \<Longrightarrow>
   a < length (heap (snd s')) \<and> heap (snd s') ! a = heap (snd s) ! a"
  by (auto simp: extends_def prefix_def nth_append)

lemma extends_length: "extends s s' \<Longrightarrow> length (heap (snd s)) \<le> length (heap (snd s'))"
  by (auto simp: extends_def prefix_def)

lemma kindAt_stable: "kindAt K x s \<Longrightarrow> extends s s' \<Longrightarrow> kindAt K x s'"
  by (auto simp: kindAt_def dest: extends_nth)

lemma dispatcher_stable:
  "extends s s' \<Longrightarrow> eventDispatcher (fst s) \<noteq> None \<Longrightarrow>
   eventDispatcher (fst s') = eventDispatcher (fst s)"
  by (simp add: extends_def)

lemma db_stable: "extends s s' \<Longrightarrow> db (fst s) \<noteq> None \<Longrightarrow> db (fst s') = db (fst s)"
  by (simp add: extends_def)

lemma app_stable: "extends s s' \<Longrightarrow> app (fst s) \<noteq> None \<Longrightarrow> app (fst s') = app (fst s)"
  by (simp add: extends_def)

lemma outside_stable: "extends s s' \<Longrightarrow> outside (snd s') = outside (snd s)"
  by (simp add: extends_def)

lemma repoOn_stable: "repoOn x s \<Longrightarrow> extends s s' \<Longrightarrow> repoOn x s'"
  unfolding repoOn_def
  apply (elim exE conjE)
  apply (frule (1) extends_nth)
  apply (frule (1) db_stable)
  apply auto
  done

lemma serviceOn_stable: "serviceOn d x s \<Longrightarrow> extends s s' \<Longrightarrow> serviceOn d x s'"
  unfolding serviceOn_def
  apply (elim exE conjE)
  apply (frule (1) extends_nth)
  apply auto
  done

lemma louds_quiet:
  "invar True z L D G n k s s' \<Longrightarrow> filter loud (trace (snd s')) = filter loud (trace (snd s))"
  by (simp add: invar_def)

lemma step:
  "triple (invar q z L D G n k s) m Q E \<Longrightarrow> invar q' z' L D G n k s0 s \<Longrightarrow>
   m s = Inr (x, s') \<Longrightarrow> Q x s'"
  by (erule tripleD [OF _ invar_restart])

lemma EventListenerLogRepository_flat:
  "EventListenerLogRepository =
     bindM (Debug ''creating GORM repositories.EventListenerLogRepository'') (\<lambda>_.
     bindM Logger (\<lambda>l. bindM Tracer (\<lambda>t. bindM DB (\<lambda>d.
     new KGormEventListenerLogRepository [l, t, d]))))"
  by (simp add: EventListenerLogRepository_def construct_def bindM_assoc bindM_ret)

lemma repoOn_new:
  "db (fst s) \<noteq> None \<Longrightarrow>
   repoOn (Some (length (heap (snd s))))
     (fst s, (snd s)\<lparr>heap := heap (snd s) @ [Obj KGormEventListenerLogRepository [l, t, db (fst s)]]\<rparr>)"
  by (simp add: repoOn_def)

lemma EventListenerLogRepository_repoOn:
  "triple (invar q z L D G n k s0) EventListenerLogRepository
     (\<lambda>x s. invar q z L D G n k s0 s \<and> repoOn x s) (allowed q L D G)"
  unfolding EventListenerLogRepository_flat
  apply (rule triple_bind [OF Debug_inv])
  apply (rule triple_bind [OF keeps [OF Logger_inv]])
  apply (rule triple_bind [OF keeps [OF Tracer_inv]])
  apply (rule triple_bind [OF DB_inv])
  apply (rule triple_new)
  apply (elim conjE)
  apply (rule conjI)
   apply (erule inv_new)
   apply (simp add: wiredObj_def)
  apply (clarsimp simp: repoOn_def)
  done

lemma dispatcherSubscribe_run:
  "dispatcherSubscribe d ev h s = Inr (u, s') \<Longrightarrow>
   s' = (fst s, (snd s)\<lparr>trace := trace (snd s) @ [DispatcherSubscribe d ev h]\<rparr>)"
  by (auto simp: dispatcherSubscribe_def bindM_def getW_def exitWith_def emit_def
      split: if_splits)

lemma subscribeRoutes_effect:
  assumes "invar q z L D G n k s0 s" and "subscribeRoutes rs s = Inr (u, s')"
  shows "invar False False L D G n k s s' \<and>
         (rs \<noteq> [] \<longrightarrow> eventDispatcher (fst s') \<noteq> None) \<and>
         heap (snd s') = heap (snd s) @ drop (length (heap (snd s))) (heap (snd s')) \<and>
         filter loud (trace (snd s')) =
           filter loud (trace (snd s)) @
           map (\<lambda>r. DispatcherSubscribe (eventDispatcher (fst s')) (fst r) (snd r)) rs"
  using assms
proof (induction rs arbitrary: s s0 q z)
  case Nil
  then show ?case by (simp add: ret_def invar_restart)
next
  case (Cons r rs)
  obtain ev h where r: "r = (ev, h)" by (cases r)
  from Cons.prems(2) obtain d s1 u2 s2 where
    r1: "EventDispatcher s = Inr (d, s1)" and
    r2: "dispatcherSubscribe d ev h s1 = Inr (u2, s2)" and
    r3: "subscribeRoutes rs s2 = Inr (u, s')"
    by (auto simp: r bindM_Inr)
  from step [OF EventDispatcher_inv Cons.prems(1) r1]
  have I1: "invar True False L D G n k s s1" and d: "d \<noteq> None" "eventDispatcher (fst s1) = d"
    by simp_all
  have s2: "s2 = (fst s1, (snd s1)\<lparr>trace := trace (snd s1) @ [DispatcherSubscribe d ev h]\<rparr>)"
    by (rule dispatcherSubscribe_run [OF r2])
  have I2: "invar False False L D G n k s s2"
    unfolding s2 by (rule inv_emit [OF invar_flags [OF I1]]) (simp_all add: d)
  from Cons.IH [OF I2 r3]
  have I3: "invar False False L D G n k s2 s'"
    and l3: "filter loud (trace (snd s')) =
           filter loud (trace (snd s2)) @
           map (\<lambda>r. DispatcherSubscribe (eventDispatcher (fst s')) (fst r) (snd r)) rs"
    by simp_all
  have e2: "eventDispatcher (fst s2) = d" by (simp add: s2 d)
  from dispatcher_stable [OF invar_extends [OF I3]] e2 d
  have e': "eventDispatcher (fst s') = d" by simp
  have l2: "filter loud (trace (snd s2)) = filter loud (trace (snd s)) @ [DispatcherSubscribe d ev h]"
    using louds_quiet [OF I1] by (simp add: s2)
  have I: "invar False False L D G n k s s'"
    using invar_trans [OF I2 I3] by simp
  from invar_extends [OF I]
  have "heap (snd s') = heap (snd s) @ drop (length (heap (snd s))) (heap (snd s'))"
    by (auto simp: extends_def prefix_def)
  with I e' d l3 l2 show ?case by (simp add: r)
qed

lemma groupAt_stable: "groupAt K ds a s \<Longrightarrow> extends s s' \<Longrightarrow> groupAt K ds a s'"
  by (auto simp: groupAt_def dest: extends_nth)

lemma map_bindRoutes:
  "map (\<lambda>r. DispatcherSubscribe d (fst r) (snd r)) (bindRoutes l rs) = map (subscribeCall d l) rs"
  by (simp add: bindRoutes_def subscribeCall_def case_prod_unfold)

lemma NewMessageListener_run:
  "NewMessageListener lg tr sv rp s =
     Inr (bindRoutes (Some (length (heap (snd s)))) (messageRoutes (outside (snd s))),
          (fst s, (snd s)\<lparr>heap := heap (snd s) @ [Obj KMessageListener [lg, tr, sv, rp]]\<rparr>))"
  by (simp add: NewMessageListener_def bindM_def new_def getW_def ret_def)

lemma NewMessageThreadListener_run:
  "NewMessageThreadListener lg tr sv rp s =
     Inr (bindRoutes (Some (length (heap (snd s)))) (messageThreadRoutes (outside (snd s))),
          (fst s, (snd s)\<lparr>heap := heap (snd s) @ [Obj KMessageThreadListener [lg, tr, sv, rp]]\<rparr>))"
  by (simp add: NewMessageThreadListener_def bindM_def new_def getW_def ret_def)

lemma NewHeartbeatListener_run:
  "NewHeartbeatListener lg tr sv s =
     Inr (bindRoutes (Some (length (heap (snd s)))) (heartbeatRoutes (outside (snd s))),
          (fst s, (snd s)\<lparr>heap := heap (snd s) @ [Obj KHeartbeatListener [lg, tr, sv]]\<rparr>))"
  by (simp add: NewHeartbeatListener_def bindM_def new_def getW_def ret_def)

lemma groupAt_new:
  "groupAt K ds (length (heap (snd s))) (fst s, (snd s)\<lparr>heap := heap (snd s) @ [Obj K ds]\<rparr>)"
  by (simp add: groupAt_def)

lemma RegisterMessageListeners_effect:
  assumes I: "invar q z L D G n k s0 s" and run: "RegisterMessageListeners s = Inr (u, s')"
  shows "\<exists>a lg tr sv rp.
           length (heap (snd s)) \<le> a \<and> groupAt KMessageListener [lg, tr, sv, rp] a s' \<and>
           kindAt KZerologLogger lg s' \<and> kindAt KOtelLogger tr s' \<and>
           serviceOn (eventDispatcher (fst s')) sv s' \<and> repoOn rp s' \<and>
           eventDispatcher (fst s') \<noteq> None \<and>
           filter loud (trace (snd s')) =
             filter loud (trace (snd s)) @
             map (subscribeCall (eventDispatcher (fst s')) (Some a)) (messageRoutes (outside (snd s)))"
proof -
  from run obtain u1 s1 lg s2 tr s3 sv s4 rp s5 routes s6 where
    r1: "Debug ''registering listners for listeners.MessageListener'' s = Inr (u1, s1)" and
    r2: "Logger s1 = Inr (lg, s2)" and
    r3: "Tracer s2 = Inr (tr, s3)" and
    r4: "MessageService s3 = Inr (sv, s4)" and
    r5: "EventListenerLogRepository s4 = Inr (rp, s5)" and
    r6: "NewMessageListener lg tr sv rp s5 = Inr (routes, s6)" and
    r7: "subscribeRoutes routes s6 = Inr (u, s')"
    by (auto simp: RegisterMessageListeners_def bindM_Inr)
  let ?a = "length (heap (snd s5))"
  from r6 have routes: "routes = bindRoutes (Some ?a) (messageRoutes (outside (snd s5)))"
    and s6: "s6 = (fst s5, (snd s5)\<lparr>heap := heap (snd s5) @ [Obj KMessageListener [lg, tr, sv, rp]]\<rparr>)"
    by (simp_all add: NewMessageListener_run)
  have J1: "invar True False L D G n k s s1" by (rule step [OF Debug_inv I r1])
  from step [OF Logger_inv J1 r2]
  have J2: "invar True False L D G n k s1 s2" and k2: "made KZerologLogger s1 lg s2" by simp_all
  from step [OF Tracer_inv J2 r3]
  have J3: "invar True False L D G n k s2 s3" and k3: "made KOtelLogger s2 tr s3" by simp_all
  from step [OF MessageService_inv J3 r4]
  have J4: "invar True False L D G n k s3 s4" and k4: "eventDispatcher (fst s4) \<noteq> None"
    "serviceOn (eventDispatcher (fst s4)) sv s4" by simp_all
  from step [OF EventListenerLogRepository_repoOn J4 r5]
  have J5: "invar True False L D G n k s4 s5" and k5: "repoOn rp s5" by simp_all
  have J6: "invar True False L D G n k s5 s6"
    unfolding s6 by (rule inv_new [OF invar_restart [OF J5]]) (simp add: wiredObj_def)
  from subscribeRoutes_effect [OF J6 r7]
  have J7: "invar False False L D G n k s6 s'"
    and l7: "filter loud (trace (snd s')) = filter loud (trace (snd s6)) @
           map (\<lambda>r. DispatcherSubscribe (eventDispatcher (fst s')) (fst r) (snd r)) routes"
    by simp_all
  have Q5: "invar True False L D G n k s s5"
    using invar_trans [OF invar_trans [OF invar_trans [OF invar_trans [OF J1 J2] J3] J4] J5]
    by simp
  have Q6: "invar True False L D G n k s s6" using invar_trans [OF Q5 J6] by simp
  have X6: "extends s6 s'" by (rule invar_extends [OF J7])
  have X5: "extends s5 s'" by (rule extends_trans [OF invar_extends [OF J6] X6])
  have X4: "extends s4 s'" by (rule extends_trans [OF invar_extends [OF J5] X5])
  have X3: "extends s3 s'" by (rule extends_trans [OF invar_extends [OF J4] X4])
  have X2: "extends s2 s'" by (rule extends_trans [OF invar_extends [OF J3] X3])
  have d: "eventDispatcher (fst s') = eventDispatcher (fst s4)"
    by (rule dispatcher_stable [OF X4 k4(1)])
  have 1: "length (heap (snd s)) \<le> ?a" by (rule extends_length [OF invar_extends [OF Q5]])
  have 2: "groupAt KMessageListener [lg, tr, sv, rp] ?a s'"
    by (rule groupAt_stable [OF _ X6]) (simp add: s6 groupAt_new)
  have 3: "kindAt KZerologLogger lg s'" by (rule kindAt_stable [OF made_kindAt [OF k2] X2])
  have 4: "kindAt KOtelLogger tr s'" by (rule kindAt_stable [OF made_kindAt [OF k3] X3])
  have 5: "serviceOn (eventDispatcher (fst s')) sv s'"
    unfolding d by (rule serviceOn_stable [OF k4(2) X4])
  have 6: "repoOn rp s'" by (rule repoOn_stable [OF k5 X5])
  have 7: "eventDispatcher (fst s') \<noteq> None" using d k4(1) by simp
  have 8: "filter loud (trace (snd s')) =
             filter loud (trace (snd s)) @
             map (subscribeCall (eventDispatcher (fst s')) (Some ?a)) (messageRoutes (outside (snd s)))"
    using l7 louds_quiet [OF Q6] outside_stable [OF invar_extends [OF Q5]]
    by (simp add: routes map_bindRoutes)
  from 1 2 3 4 5 6 7 8 show ?thesis by blast
qed

lemma RegisterMessageThreadListeners_effect:
  assumes I: "invar q z L D G n k s0 s" and run: "RegisterMessageThreadListeners s = Inr (u, s')"
  shows "\<exists>a lg tr sv rp.
           length (heap (snd s)) \<le> a \<and> groupAt KMessageThreadListener [lg, tr, sv, rp] a s' \<and>
           kindAt KZerologLogger lg s' \<and> kindAt KOtelLogger tr s' \<and>
           kindAt KMessageThreadService sv s' \<and> repoOn rp s' \<and>
           filter loud (trace (snd s')) =
             filter loud (trace (snd s)) @
             map (subscribeCall (eventDispatcher (fst s')) (Some a))
               (messageThreadRoutes (outside (snd s)))"
proof -
  from run obtain u1 s1 lg s2 tr s3 sv s4 rp s5 routes s6 where
    r1: "Debug ''registering listners for listeners.MessageThreadListener'' s = Inr (u1, s1)" and
    r2: "Logger s1 = Inr (lg, s2)" and
    r3: "Tracer s2 = Inr (tr, s3)" and
    r4: "MessageThreadService s3 = Inr (sv, s4)" and
    r5: "EventListenerLogRepository s4 = Inr (rp, s5)" and
    r6: "NewMessageThreadListener lg tr sv rp s5 = Inr (routes, s6)" and
    r7: "subscribeRoutes routes s6 = Inr (u, s')"
    by (auto simp: RegisterMessageThreadListeners_def bindM_Inr)
  let ?a = "length (heap (snd s5))"
  from r6 have routes: "routes = bindRoutes (Some ?a) (messageThreadRoutes (outside (snd s5)))"
    and s6: "s6 = (fst s5, (snd s5)\<lparr>heap := heap (snd s5) @
                     [Obj KMessageThreadListener [lg, tr, sv, rp]]\<rparr>)"
    by (simp_all add: NewMessageThreadListener_run)
  have J1: "invar True False L D G n k s s1" by (rule step [OF Debug_inv I r1])
  from step [OF Logger_inv J1 r2]
  have J2: "invar True False L D G n k s1 s2" and k2: "made KZerologLogger s1 lg s2" by simp_all
  from step [OF Tracer_inv J2 r3]
  have J3: "invar True False L D G n k s2 s3" and k3: "made KOtelLogger s2 tr s3" by simp_all
  from step [OF MessageThreadService_inv J3 r4]
  have J4: "invar True False L D G n k s3 s4" and k4: "made KMessageThreadService s3 sv s4"
    by simp_all
  from step [OF EventListenerLogRepository_repoOn J4 r5]
  have J5: "invar True False L D G n k s4 s5" and k5: "repoOn rp s5" by simp_all
  have J6: "invar True False L D G n k s5 s6"
    unfolding s6 by (rule inv_new [OF invar_restart [OF J5]]) (simp add: wiredObj_def)
  from subscribeRoutes_effect [OF J6 r7]
  have J7: "invar False False L D G n k s6 s'"
    and l7: "filter loud (trace (snd s')) = filter loud (trace (snd s6)) @
           map (\<lambda>r. DispatcherSubscribe (eventDispatcher (fst s')) (fst r) (snd r)) routes"
    by simp_all
  have Q5: "invar True False L D G n k s s5"
    using invar_trans [OF invar_trans [OF invar_trans [OF invar_trans [OF J1 J2] J3] J4] J5]
    by simp
  have Q6: "invar True False L D G n k s s6" using invar_trans [OF Q5 J6] by simp
  have X6: "extends s6 s'" by (rule invar_extends [OF J7])
  have X5: "extends s5 s'" by (rule extends_trans [OF invar_extends [OF J6] X6])
  have X4: "extends s4 s'" by (rule extends_trans [OF invar_extends [OF J5] X5])
  have X3: "extends s3 s'" by (rule extends_trans [OF invar_extends [OF J4] X4])
  have X2: "extends s2 s'" by (rule extends_trans [OF invar_extends [OF J3] X3])
  have 1: "length (heap (snd s)) \<le> ?a" by (rule extends_length [OF invar_extends [OF Q5]])
  have 2: "groupAt KMessageThreadListener [lg, tr, sv, rp] ?a s'"
    by (rule groupAt_stable [OF _ X6]) (simp add: s6 groupAt_new)
  have 3: "kindAt KZerologLogger lg s'" by (rule kindAt_stable [OF made_kindAt [OF k2] X2])
  have 4: "kindAt KOtelLogger tr s'" by (rule kindAt_stable [OF made_kindAt [OF k3] X3])
  have 5: "kindAt KMessageThreadService sv s'" by (rule kindAt_stable [OF made_kindAt [OF k4] X4])
  have 6: "repoOn rp s'" by (rule repoOn_stable [OF k5 X5])
  have 8: "filter loud (trace (snd s')) =
             filter loud (trace (snd s)) @
             map (subscribeCall (eventDispatcher (fst s')) (Some ?a))
               (messageThreadRoutes (outside (snd s)))"
    using l7 louds_quiet [OF Q6] outside_stable [OF invar_extends [OF Q5]]
    by (simp add: routes map_bindRoutes)
  from 1 2 3 4 5 6 8 show ?thesis by blast
qed

lemma RegisterHeartbeatListeners_effect:
  assumes I: "invar q z L D G n k s0 s" and run: "RegisterHeartbeatListeners s = Inr (u, s')"
  shows "\<exists>a lg tr sv.
           length (heap (snd s)) \<le> a \<and> groupAt KHeartbeatListener [lg, tr, sv] a s' \<and>
           kindAt KZerologLogger lg s' \<and> kindAt KOtelLogger tr s' \<and>
           kindAt KHeartbeatService sv s' \<and>
           (heartbeatRoutes (outside (snd s)) \<noteq> [] \<longrightarrow> eventDispatcher (fst s') \<noteq> None) \<and>
           filter loud (trace (snd s')) =
             filter loud (trace (snd s)) @
             map (subscribeCall (eventDispatcher (fst s')) (Some a))
               (heartbeatRoutes (outside (snd s)))"
proof -
  from run obtain u1 s1 lg s2 tr s3 sv s4 routes s6 where
    r1: "Debug ''registering listners for listeners.HeartbeatListener'' s = Inr (u1, s1)" and
    r2: "Logger s1 = Inr (lg, s2)" and
    r3: "Tracer s2 = Inr (tr, s3)" and
    r4: "HeartbeatService s3 = Inr (sv, s4)" and
    r6: "NewHeartbeatListener lg tr sv s4 = Inr (routes, s6)" and
    r7: "subscribeRoutes routes s6 = Inr (u, s')"
    by (auto simp: RegisterHeartbeatListeners_def bindM_Inr)
  let ?a = "length (heap (snd s4))"
  from r6 have routes: "routes = bindRoutes (Some ?a) (heartbeatRoutes (outside (snd s4)))"
    and s6: "s6 = (fst s4, (snd s4)\<lparr>heap := heap (snd s4) @ [Obj KHeartbeatListener [lg, tr, sv]]\<rparr>)"
    by (simp_all add: NewHeartbeatListener_run)
  have J1: "invar True False L D G n k s s1" by (rule step [OF Debug_inv I r1])
  from step [OF Logger_inv J1 r2]
  have J2: "invar True False L D G n k s1 s2" and k2: "made KZerologLogger s1 lg s2" by simp_all
  from step [OF Tracer_inv J2 r3]
  have J3: "invar True False L D G n k s2 s3" and k3: "made KOtelLogger s2 tr s3" by simp_all
  from step [OF HeartbeatService_inv J3 r4]
  have J4: "invar True False L D G n k s3 s4" and k4: "made KHeartbeatService s3 sv s4"
    by simp_all
  have J6: "invar True False L D G n k s4 s6"
    unfolding s6 by (rule inv_new [OF invar_restart [OF J4]]) (simp add: wiredObj_def)
  from subscribeRoutes_effect [OF J6 r7]
  have J7: "invar False False L D G n k s6 s'"
    and d7: "routes \<noteq> [] \<longrightarrow> eventDispatcher (fst s') \<noteq> None"
    and l7: "filter loud (trace (snd s')) = filter loud (trace (snd s6)) @
           map (\<lambda>r. DispatcherSubscribe (eventDispatcher (fst s')) (fst r) (snd r)) routes"
    by simp_all
  have Q4: "invar True False L D G n k s s4"
    using invar_trans [OF invar_trans [OF invar_trans [OF J1 J2] J3] J4] by simp
  have Q6: "invar True False L D G n k s s6" using invar_trans [OF Q4 J6] by simp
  have X6: "extends s6 s'" by (rule invar_extends [OF J7])
  have X4: "extends s4 s'" by (rule extends_trans [OF invar_extends [OF J6] X6])
  have X3: "extends s3 s'" by (rule extends_trans [OF invar_extends [OF J4] X4])
  have X2: "extends s2 s'" by (rule extends_trans [OF invar_extends [OF J3] X3])
  have o: "outside (snd s4) = outside (snd s)" by (rule outside_stable [OF invar_extends [OF Q4]])
  have 1: "length (heap (snd s)) \<le> ?a" by (rule extends_length [OF invar_extends [OF Q4]])
  have 2: "groupAt KHeartbeatListener [lg, tr, sv] ?a s'"
    by (rule groupAt_stable [OF _ X6]) (simp add: s6 groupAt_new)
  have 3: "kindAt KZerologLogger lg s'" by (rule kindAt_stable [OF made_kindAt [OF k2] X2])
  have 4: "kindAt KOtelLogger tr s'" by (rule kindAt_stable [OF made_kindAt [OF k3] X3])
  have 5: "kindAt KHeartbeatService sv s'" by (rule kindAt_stable [OF made_kindAt [OF k4] X4])
  have 7: "heartbeatRoutes (outside (snd s)) \<noteq> [] \<longrightarrow> eventDispatcher (fst s') \<noteq> None"
    using d7 by (simp add: routes o bindRoutes_def)
  have 8: "filter loud (trace (snd s')) =
             filter loud (trace (snd s)) @
             map (subscribeCall (eventDispatcher (fst s')) (Some ?a))
               (heartbeatRoutes (outside (snd s)))"
    using l7 louds_quiet [OF Q6] by (simp add: routes o map_bindRoutes)
  from 1 2 3 4 5 7 8 show ?thesis by blast
qed

lemma emit_run: "emit c s = Inr (u, s') \<Longrightarrow> s' = (fst s, (snd s)\<lparr>trace := trace (snd s) @ [c]\<rparr>)"
  by (auto simp: emit_def)

lemma registerRoutes_effect:
  assumes H: "\<And>s1. triple (invar True False L D G n k s1) handlerOf
                 (\<lambda>x s. invar True False L D G n k s1 s \<and> made K s1 x s) E"
    and I: "invar q z L D G n k s0 s" and run: "registerRoutes msg handlerOf s = Inr (u, s')"
  shows "\<exists>h. app (fst s') \<noteq> None \<and> kindAt K h s' \<and>
           filter loud (trace (snd s')) =
             filter loud (trace (snd s)) @ [HandlerRegisterRoutes h (app (fst s')) ''v1'']"
proof -
  from run obtain u1 s1 h s2 a s3 where
    r1: "Debug msg s = Inr (u1, s1)" and
    r2: "handlerOf s1 = Inr (h, s2)" and
    r3: "App s2 = Inr (a, s3)" and
    r4: "emit (HandlerRegisterRoutes h a ''v1'') s3 = Inr (u, s')"
    by (auto simp: registerRoutes_def bindM_Inr)
  have J1: "invar True False L D G n k s s1" by (rule step [OF Debug_inv I r1])
  from step [OF H J1 r2]
  have J2: "invar True False L D G n k s1 s2" and h: "made K s1 h s2" by simp_all
  from step [OF App_inv J2 r3]
  have J3: "invar True False L D G n k s2 s3" and a: "a \<noteq> None" "app (fst s3) = a" by simp_all
  have Q3: "invar True False L D G n k s s3"
    using invar_trans [OF invar_trans [OF J1 J2] J3] by simp
  have s': "s' = (fst s3, (snd s3)\<lparr>trace := trace (snd s3) @ [HandlerRegisterRoutes h a ''v1'']\<rparr>)"
    by (rule emit_run [OF r4])
  have "kindAt K h s3" by (rule kindAt_stable [OF made_kindAt [OF h] invar_extends [OF J3]])
  then have "kindAt K h s'" by (simp add: s' kindAt_def)
  then show ?thesis
    using a louds_quiet [OF Q3] by (auto simp: s')
qed

lemma RegisterSwaggerRoutes_effect:
  assumes I: "invar q z L D G n k s0 s" and run: "RegisterSwaggerRoutes s = Inr (u, s')"
  shows "app (fst s') \<noteq> None \<and>
         filter loud (trace (snd s')) =
           filter loud (trace (snd s)) @ [AppGet (app (fst s')) ''/*'']"
proof -
  from run obtain u1 s1 a s3 where
    r1: "Debug ''registering *handlers.MessageHandler routes'' s = Inr (u1, s1)" and
    r3: "App s1 = Inr (a, s3)" and
    r4: "emit (AppGet a ''/*'') s3 = Inr (u, s')"
    by (auto simp: RegisterSwaggerRoutes_def bindM_Inr)
  have J1: "invar True False L D G n k s s1" by (rule step [OF Debug_inv I r1])
  from step [OF App_inv J1 r3]
  have J3: "invar True False L D G n k s1 s3" and a: "a \<noteq> None" "app (fst s3) = a" by simp_all
  have Q3: "invar True False L D G n k s s3" using invar_trans [OF J1 J3] by simp
  have s': "s' = (fst s3, (snd s3)\<lparr>trace := trace (snd s3) @ [AppGet a ''/*'']\<rparr>)"
    by (rule emit_run [OF r4])
  show ?thesis
    using a louds_quiet [OF Q3] by (auto simp: s')
qed

lemma setC_run: "setC f s = Inr (u, s') \<Longrightarrow> s' = (f (fst s), snd s)"
  by (auto simp: setC_def)

lemma groupAt_kindAt: "groupAt K ds a s \<Longrightarrow> kindAt K (Some a) s"
  by (simp add: groupAt_def kindAt_def)

lemma repoOn_db: "repoOn x s \<Longrightarrow> db (fst s) \<noteq> None"
  by (auto simp: repoOn_def)

lemma compose_effect:
  assumes I: "invar q z L D G n k s0 s" and run: "compose s = Inr (u, s')"
  shows "\<exists>am at ah hm ht hh.
           eventDispatcher (fst s') \<noteq> None \<and> app (fst s') \<noteq> None \<and> db (fst s') \<noteq> None \<and>
           kindAt KMessageListener (Some am) s' \<and> kindAt KMessageThreadListener (Some at) s' \<and>
           kindAt KHeartbeatListener (Some ah) s' \<and>
           kindAt KMessageHandler hm s' \<and> kindAt KMessageThreadHandler ht s' \<and>
           kindAt KHeartbeatHandler hh s' \<and>
           filter loud (trace (snd s')) =
             filter loud (trace (snd s)) @
             map (subscribeCall (eventDispatcher (fst s')) (Some am)) (messageRoutes (outside (snd s))) @
             [HandlerRegisterRoutes hm (app (fst s')) ''v1'',
              HandlerRegisterRoutes ht (app (fst s')) ''v1''] @
             map (subscribeCall (eventDispatcher (fst s')) (Some at))
               (messageThreadRoutes (outside (snd s))) @
             [HandlerRegisterRoutes hh (app (fst s')) ''v1''] @
             map (subscribeCall (eventDispatcher (fst s')) (Some ah))
               (heartbeatRoutes (outside (snd s))) @
             [AppGet (app (fst s')) ''/*'']"
proof -
  from run obtain l t1 l' t2 u3 t3 u4 c1 u5 c2 u6 c3 u7 c4 u8 c5 u9 c6 where
    r1: "logger_fn s = Inr (l, t1)" and
    r2: "new KServiceLogger [l] t1 = Inr (l', t2)" and
    r3: "setC (\<lambda>c. c\<lparr>logger := l'\<rparr>) t2 = Inr (u3, t3)" and
    r4: "RegisterMessageListeners t3 = Inr (u4, c1)" and
    r5: "RegisterMessageRoutes c1 = Inr (u5, c2)" and
    r6: "RegisterMessageThreadRoutes c2 = Inr (u6, c3)" and
    r7: "RegisterMessageThreadListeners c3 = Inr (u7, c4)" and
    r8: "RegisterHeartbeatRoutes c4 = Inr (u8, c5)" and
    r9: "RegisterHeartbeatListeners c5 = Inr (u9, c6)" and
    r10: "RegisterSwaggerRoutes c6 = Inr (u, s')"
    by (auto simp: compose_def bindM_Inr)
  have P1: "invar True False L D G n k s t1" using step [OF logger_fn_inv I r1] by simp
  have "triple (invar True False L D G n k t1) (new KServiceLogger [l])
          (\<lambda>_. invar True False L D G n k t1) (\<lambda>_. True)"
    by (rule new_keeps) simp
  from step [OF this P1 r2] have P2: "invar True False L D G n k t1 t2" .
  have t3: "t3 = ((fst t2)\<lparr>logger := l'\<rparr>, snd t2)" by (rule setC_run [OF r3])
  have P3: "invar True False L D G n k t2 t3"
    unfolding t3 by (rule inv_set_logger [OF invar_restart [OF P2]])
  have Q3: "invar True False L D G n k s t3"
    using invar_trans [OF invar_trans [OF P1 P2] P3] by simp
  have K1: "invar False False L D G n k t3 c1" by (rule step [OF RegisterMessageListeners_inv Q3 r4])
  have K2: "invar False False L D G n k c1 c2" by (rule step [OF RegisterMessageRoutes_inv K1 r5])
  have K3: "invar False False L D G n k c2 c3" by (rule step [OF RegisterMessageThreadRoutes_inv K2 r6])
  have K4: "invar False False L D G n k c3 c4" by (rule step [OF RegisterMessageThreadListeners_inv K3 r7])
  have K5: "invar False False L D G n k c4 c5" by (rule step [OF RegisterHeartbeatRoutes_inv K4 r8])
  have K6: "invar False False L D G n k c5 c6" by (rule step [OF RegisterHeartbeatListeners_inv K5 r9])
  have K7: "invar False False L D G n k c6 s'" by (rule step [OF RegisterSwaggerRoutes_inv K6 r10])
  note x = invar_extends
  have Y6: "extends c6 s'" by (rule x [OF K7])
  have Y5: "extends c5 s'" by (rule extends_trans [OF x [OF K6] Y6])
  have Y4: "extends c4 s'" by (rule extends_trans [OF x [OF K5] Y5])
  have Y3: "extends c3 s'" by (rule extends_trans [OF x [OF K4] Y4])
  have Y2: "extends c2 s'" by (rule extends_trans [OF x [OF K3] Y3])
  have Y1: "extends c1 s'" by (rule extends_trans [OF x [OF K2] Y2])
  have F2: "extends c1 c2" by (rule x [OF K2])
  have F3: "extends c1 c3" by (rule extends_trans [OF F2 x [OF K3]])
  have F4: "extends c1 c4" by (rule extends_trans [OF F3 x [OF K4]])
  have F5: "extends c1 c5" by (rule extends_trans [OF F4 x [OF K5]])
  have F6: "extends c1 c6" by (rule extends_trans [OF F5 x [OF K6]])
  have G23: "extends c2 c3" by (rule x [OF K3])
  have G25: "extends c2 c5" by (rule extends_trans [OF extends_trans [OF G23 x [OF K4]] x [OF K5]])
  have S0: "extends s t3" by (rule x [OF Q3])
  have S1: "extends s c1" by (rule extends_trans [OF S0 x [OF K1]])
  have o0: "outside (snd t3) = outside (snd s)" by (rule outside_stable [OF S0])
  have o3: "outside (snd c3) = outside (snd s)"
    by (rule outside_stable [OF extends_trans [OF S1 F3]])
  have o5: "outside (snd c5) = outside (snd s)"
    by (rule outside_stable [OF extends_trans [OF S1 F5]])
  from RegisterMessageListeners_effect [OF Q3 r4] obtain am lg tr sv rp where
    e1: "groupAt KMessageListener [lg, tr, sv, rp] am c1" "repoOn rp c1"
      "eventDispatcher (fst c1) \<noteq> None"
      "filter loud (trace (snd c1)) = filter loud (trace (snd t3)) @
         map (subscribeCall (eventDispatcher (fst c1)) (Some am)) (messageRoutes (outside (snd t3)))"
    by blast
  from registerRoutes_effect [OF MessageHandler_inv K1 r5 [unfolded RegisterMessageRoutes_def]]
  obtain hm where
    e2: "app (fst c2) \<noteq> None" "kindAt KMessageHandler hm c2"
      "filter loud (trace (snd c2)) =
         filter loud (trace (snd c1)) @ [HandlerRegisterRoutes hm (app (fst c2)) ''v1'']"
    by blast
  from registerRoutes_effect [OF MessageThreadHandler_inv K2 r6 [unfolded RegisterMessageThreadRoutes_def]]
  obtain ht where
    e3: "kindAt KMessageThreadHandler ht c3"
      "filter loud (trace (snd c3)) =
         filter loud (trace (snd c2)) @ [HandlerRegisterRoutes ht (app (fst c3)) ''v1'']"
    by blast
  from RegisterMessageThreadListeners_effect [OF K3 r7] obtain at lg2 tr2 sv2 rp2 where
    e4: "groupAt KMessageThreadListener [lg2, tr2, sv2, rp2] at c4"
      "filter loud (trace (snd c4)) = filter loud (trace (snd c3)) @
         map (subscribeCall (eventDispatcher (fst c4)) (Some at))
           (messageThreadRoutes (outside (snd c3)))"
    by blast
  from registerRoutes_effect [OF HeartbeatHandler_inv K4 r8 [unfolded RegisterHeartbeatRoutes_def]]
  obtain hh where
    e5: "kindAt KHeartbeatHandler hh c5"
      "filter loud (trace (snd c5)) =
         filter loud (trace (snd c4)) @ [HandlerRegisterRoutes hh (app (fst c5)) ''v1'']"
    by blast
  from RegisterHeartbeatListeners_effect [OF K5 r9] obtain ah lg3 tr3 sv3 where
    e6: "groupAt KHeartbeatListener [lg3, tr3, sv3] ah c6"
      "filter loud (trace (snd c6)) = filter loud (trace (snd c5)) @
         map (subscribeCall (eventDispatcher (fst c6)) (Some ah))
           (heartbeatRoutes (outside (snd c5)))"
    by blast
  from RegisterSwaggerRoutes_effect [OF K6 r10]
  have e7: "filter loud (trace (snd s')) =
           filter loud (trace (snd c6)) @ [AppGet (app (fst s')) ''/*'']"
    by simp
  have d': "eventDispatcher (fst s') = eventDispatcher (fst c1)"
    by (rule dispatcher_stable [OF Y1 e1(3)])
  have d4: "eventDispatcher (fst c4) = eventDispatcher (fst c1)"
    by (rule dispatcher_stable [OF F4 e1(3)])
  have d6: "eventDispatcher (fst c6) = eventDispatcher (fst c1)"
    by (rule dispatcher_stable [OF F6 e1(3)])
  have a': "app (fst s') = app (fst c2)" by (rule app_stable [OF Y2 e2(1)])
  have a3: "app (fst c3) = app (fst c2)" by (rule app_stable [OF G23 e2(1)])
  have a5: "app (fst c5) = app (fst c2)" by (rule app_stable [OF G25 e2(1)])
  have b': "db (fst s') = db (fst c1)" by (rule db_stable [OF Y1 repoOn_db [OF e1(2)]])
  have 1: "eventDispatcher (fst s') \<noteq> None" using d' e1(3) by simp
  have 2: "app (fst s') \<noteq> None" using a' e2(1) by simp
  have 3: "db (fst s') \<noteq> None" using b' repoOn_db [OF e1(2)] by simp
  have 4: "kindAt KMessageListener (Some am) s'"
    by (rule kindAt_stable [OF groupAt_kindAt [OF e1(1)] Y1])
  have 5: "kindAt KMessageThreadListener (Some at) s'"
    by (rule kindAt_stable [OF groupAt_kindAt [OF e4(1)] Y4])
  have 6: "kindAt KHeartbeatListener (Some ah) s'"
    by (rule kindAt_stable [OF groupAt_kindAt [OF e6(1)] Y6])
  have 7: "kindAt KMessageHandler hm s'" by (rule kindAt_stable [OF e2(2) Y2])
  have 8: "kindAt KMessageThreadHandler ht s'" by (rule kindAt_stable [OF e3(1) Y3])
  have 9: "kindAt KHeartbeatHandler hh s'" by (rule kindAt_stable [OF e5(1) Y5])
  have 10: "filter loud (trace (snd s')) =
             filter loud (trace (snd s)) @
             map (subscribeCall (eventDispatcher (fst s')) (Some am)) (messageRoutes (outside (snd s))) @
             [HandlerRegisterRoutes hm (app (fst s')) ''v1'',
              HandlerRegisterRoutes ht (app (fst s')) ''v1''] @
             map (subscribeCall (eventDispatcher (fst s')) (Some at))
               (messageThreadRoutes (outside (snd s))) @
             [HandlerRegisterRoutes hh (app (fst s')) ''v1''] @
             map (subscribeCall (eventDispatcher (fst s')) (Some ah))
               (heartbeatRoutes (outside (snd s))) @
             [AppGet (app (fst s')) ''/*'']"
    unfolding e7 e6(2) e5(2) e4(2) e3(2) e2(3) e1(4) louds_quiet [OF Q3] d' d4 d6 a' a3 a5 o0 o3 o5
    by simp
  from 1 2 3 4 5 6 7 8 9 10 show ?thesis by blast
qed

lemma DB_cached: "db (fst s) = Some d \<Longrightarrow> DB s = Inr (Some d, s)"
  by (simp add: DB_def bindM_def getC_def ret_def)

lemma App_cached: "app (fst s) = Some a \<Longrightarrow> App s = Inr (Some a, s)"
  by (simp add: App_def bindM_def getC_def ret_def)

lemma EventDispatcher_cached:
  "eventDispatcher (fst s) = Some d \<Longrightarrow> EventDispatcher s = Inr (Some d, s)"
  by (simp add: EventDispatcher_def bindM_def getC_def ret_def)

lemma DB_uncached:
  "db (fst s) = None \<Longrightarrow>
   DB s =
     (let w = snd s; out = outside w; t = now w; d = Some (Suc (length (heap w))) in
      if openFails out (getenv out ''DATABASE_URL'') (t + 2) then Inl OpenFatal
      else if migrateFails out (t + 4) Message then Inl (MigrateFatal Message)
      else if migrateFails out (t + 5) GormEvent then Inl (MigrateFatal GormEvent)
      else if migrateFails out (t + 6) EventListenerLog then Inl (MigrateFatal EventListenerLog)
      else if migrateFails out (t + 7) MessageThread then Inl (MigrateFatal MessageThread)
      else if migrateFails out (t + 8) Heartbeat then Inl (MigrateFatal Heartbeat)
      else Inr (d, ((fst s)\<lparr>db := d\<rparr>,
                w\<lparr>heap := heap w @ [Obj KGormLogger [], Obj KGormDB [Some (length (heap w))]],
                  trace := trace w @
                    [LogDebug (logger (fst s)) ''creating *gorm.DB'',
                     LogDebug (logger (fst s)) ''Running migrations for *gorm.DB'',
                     DBAutoMigrate d Message, DBAutoMigrate d GormEvent,
                     DBAutoMigrate d EventListenerLog, DBAutoMigrate d MessageThread,
                     DBAutoMigrate d Heartbeat]\<rparr>)))"
  by (simp add: DB_def bindM_def getC_def getW_def setC_def new_def Debug_def emit_def
      gormOpen_def migrate_def exitWith_def ret_def now_def Let_def eval_nat_numeral)

lemma App_uncached:
  "app (fst s) = None \<Longrightarrow>
   App s =
     (let w = snd s; a = Some (length (heap w)); m = Some (Suc (length (heap w)));
          dbg = LogDebug (logger (fst s)) ''creating *fiber.App'' in
      if getenv (outside w) ''APP_HTTP_LOGGER'' = ''true''
      then Inr (a, ((fst s)\<lparr>app := a\<rparr>,
             w\<lparr>heap := heap w @ [Obj KFiberApp [], Obj KFiberLoggerMiddleware [], Obj KCorsMiddleware []],
               trace := trace w @ [dbg, AppUse a m, AppUse a (Some (Suc (Suc (length (heap w)))))]\<rparr>))
      else Inr (a, ((fst s)\<lparr>app := a\<rparr>,
             w\<lparr>heap := heap w @ [Obj KFiberApp [], Obj KCorsMiddleware []],
               trace := trace w @ [dbg, AppUse a m]\<rparr>)))"
  by (simp add: App_def appUse_def bindM_def getC_def getW_def setC_def new_def Debug_def emit_def
      ret_def Let_def)

lemma accessors_inv:
  "m \<in> set accessors \<Longrightarrow>
   triple (invar q False L D G n k s0) m (\<lambda>_. invar q False L D G n k s0) (allowed q L D G)"
  unfolding accessors_def
  apply simp
  apply (elim disjE)
                    apply (simp_all only:)
                    apply (rule keeps [OF App_inv])
                    apply (rule keeps [OF Logger_inv])
                    apply (rule keeps [OF DB_inv])
                    apply (rule keeps [OF Tracer_inv])
                    apply (rule keeps [OF MessageHandlerValidator_inv])
                    apply (rule keeps [OF HeartbeatHandler_inv])
                    apply (rule keeps [OF HeartbeatHandlerValidator_inv])
                    apply (rule keeps [OF MessageThreadHandler_inv])
                    apply (rule keeps [OF MessageThreadHandlerValidator_inv])
                    apply (rule keeps [OF EventDispatcher_inv])
                    apply (rule keeps [OF MessageRepository_inv])
                    apply (rule keeps [OF MessageThreadRepository_inv])
                    apply (rule keeps [OF EventRepository_inv])
                    apply (rule keeps [OF EventListenerLogRepository_inv])
                    apply (rule keeps [OF HeartbeatService_inv])
                    apply (rule keeps [OF MessageThreadService_inv])
                    apply (rule keeps [OF MessageHandler_inv])
                    apply (rule keeps [OF MessageService_inv])
                    apply (rule keeps [OF HeartbeatRepository_inv])
  done

lemma constructors_made:
  "(K, m) \<in> set constructors \<Longrightarrow>
   triple (invar q False L D G n k s0) m
     (\<lambda>x s. invar q False L D G n k s0 s \<and> made K s0 x s) (allowed q L D G)"
  unfolding constructors_def
  apply simp
  apply (elim disjE conjE)
                    apply (simp_all only:)
                 apply (rule Logger_inv)
                apply (rule Tracer_inv)
               apply (rule MessageHandlerValidator_inv)
              apply (rule HeartbeatHandler_inv)
             apply (rule HeartbeatHandlerValidator_inv)
            apply (rule MessageThreadHandler_inv)
           apply (rule MessageThreadHandlerValidator_inv)
          apply (rule MessageRepository_inv)
         apply (rule MessageThreadRepository_inv)
        apply (rule EventRepository_inv)
       apply (rule EventListenerLogRepository_inv)
      apply (rule HeartbeatService_inv)
     apply (rule MessageThreadService_inv)
    apply (rule MessageHandler_inv)
   apply (rule triple_post [OF MessageService_inv])
   apply simp
  apply (rule HeartbeatRepository_inv)
  done

lemma routeRegistrations_inv:
  "r \<in> set routeRegistrations \<Longrightarrow>
   triple (invar False False L D G n k s0) r (\<lambda>_. invar False False L D G n k s0)
     (allowed False L D G)"
  unfolding routeRegistrations_def
  by (auto intro: RegisterMessageRoutes_inv RegisterMessageThreadRoutes_inv
      RegisterHeartbeatRoutes_inv RegisterSwaggerRoutes_inv)

lemma listenerRegistrations_inv:
  "r \<in> set listenerRegistrations \<Longrightarrow>
   triple (invar False False L D G n k s0) r (\<lambda>_. invar False False L D G n k s0)
     (allowed False L D G)"
  unfolding listenerRegistrations_def
  by (auto intro: RegisterMessageListeners_inv RegisterMessageThreadListeners_inv
      RegisterHeartbeatListeners_inv)

lemma later_invar:
  "later s s' \<Longrightarrow> invar q z L D G n k s0 s \<Longrightarrow> invar False False L D G n k s s'"
proof (induction rule: later.induct)
  case later_now
  then show ?case by (rule invar_restart)
next
  case (later_accessor s1 m x s2)
  from later_accessor.IH [OF later_accessor.prems]
  have 1: "invar False False L D G n k s s1" .
  from tripleD [OF accessors_inv [OF later_accessor.hyps(2)] 1 later_accessor.hyps(3)]
  show ?case .
next
  case (later_routes s1 r u s2)
  from later_routes.IH [OF later_routes.prems]
  have 1: "invar False False L D G n k s s1" .
  from tripleD [OF routeRegistrations_inv [OF later_routes.hyps(2)] 1 later_routes.hyps(3)]
  show ?case .
next
  case (later_listeners s1 r u s2)
  from later_listeners.IH [OF later_listeners.prems]
  have 1: "invar False False L D G n k s s1" .
  from tripleD [OF listenerRegistrations_inv [OF later_listeners.hyps(2)] 1 later_listeners.hyps(3)]
  show ?case .
qed

lemma later_extends: "later s s' \<Longrightarrow> extends s s'"
  by (rule invar_extends [OF later_invar [OF _ invar_init]])

lemma blank_invar:
  "(L \<longrightarrow> getenv (outside w) ''ENV'' = ''local'') \<Longrightarrow> (G \<longrightarrow> benign (outside w)) \<Longrightarrow>
   invar q z L False G (length (heap w)) (length (trace w)) (blank pid, w) (blank pid, w)"
  by (simp add: invar_def extends_refl wired_def)

lemma NewContainer_Inr:
  "NewContainer pid w = Inr s \<longleftrightarrow> (\<exists>u. compose (blank pid, w) = Inr (u, s))"
  by (auto simp: NewContainer_def split: sum.splits)

lemma NewContainer_Inl: "NewContainer pid w = Inl e \<longleftrightarrow> compose (blank pid, w) = Inl e"
  by (auto simp: NewContainer_def split: sum.splits)

lemma NewContainer_invar:
  assumes "NewContainer pid w = Inr s"
    and "L \<longrightarrow> getenv (outside w) ''ENV'' = ''local''" and "G \<longrightarrow> benign (outside w)"
  shows "invar False False L False G (length (heap w)) (length (trace w)) (blank pid, w) s"
proof -
  from assms(1) obtain u where "compose (blank pid, w) = Inr (u, s)"
    by (auto simp: NewContainer_Inr)
  from tripleD [OF compose_inv blank_invar [OF assms(2,3)] this] show ?thesis .
qed

lemma NewContainer_fatal:
  assumes "NewContainer pid w = Inl e"
    and "L \<longrightarrow> getenv (outside w) ''ENV'' = ''local''" and "G \<longrightarrow> benign (outside w)"
  shows "allowed False L False G e"
proof -
  from assms(1) have "compose (blank pid, w) = Inl e" by (simp add: NewContainer_Inl)
  from tripleE [OF compose_inv blank_invar [OF assms(2,3)] this] show ?thesis .
qed

lemma allowed_never: "\<not> allowed q True D True e"
  by (cases e) simp_all

lemma NewContainer_returns:
  assumes "getenv (outside w) ''ENV'' = ''local''" and "benign (outside w)"
  shows "\<exists>s. NewContainer pid w = Inr s"
proof (cases "NewContainer pid w")
  case (Inl e)
  from NewContainer_fatal [OF Inl, of True True] assms have "allowed False True False True e"
    by simp
  then show ?thesis by (simp add: allowed_never)
next
  case (Inr s)
  then show ?thesis by blast
qed

lemma returns:
  assumes "triple (invar q z True D True n k s0) m Q (allowed q True D True)"
    and "invar q z True D True n k s0 s"
  shows "\<exists>x s'. m s = Inr (x, s')"
proof (cases "m s")
  case (Inl e)
  from tripleE [OF assms Inl] show ?thesis by (simp add: allowed_never)
next
  case (Inr p)
  then show ?thesis by (cases p) simp
qed

lemma NewContainer_effect:
  assumes "NewContainer pid w = Inr s"
  shows "\<exists>am at ah hm ht hh.
           eventDispatcher (fst s) \<noteq> None \<and> app (fst s) \<noteq> None \<and> db (fst s) \<noteq> None \<and>
           kindAt KMessageListener (Some am) s \<and> kindAt KMessageThreadListener (Some at) s \<and>
           kindAt KHeartbeatListener (Some ah) s \<and>
           kindAt KMessageHandler hm s \<and> kindAt KMessageThreadHandler ht s \<and>
           kindAt KHeartbeatHandler hh s \<and>
           filter loud (trace (snd s)) =
             filter loud (trace w) @
             map (subscribeCall (eventDispatcher (fst s)) (Some am)) (messageRoutes (outside w)) @
             [HandlerRegisterRoutes hm (app (fst s)) ''v1'',
              HandlerRegisterRoutes ht (app (fst s)) ''v1''] @
             map (subscribeCall (eventDispatcher (fst s)) (Some at))
               (messageThreadRoutes (outside w)) @
             [HandlerRegisterRoutes hh (app (fst s)) ''v1''] @
             map (subscribeCall (eventDispatcher (fst s)) (Some ah))
               (heartbeatRoutes (outside w)) @
             [AppGet (app (fst s)) ''/*'']"
proof -
  from assms obtain u where "compose (blank pid, w) = Inr (u, s)"
    by (auto simp: NewContainer_Inr)
  from compose_effect [OF blank_invar [of False w False] this] show ?thesis by simp
qed

lemma subscriptions_append:
  "subscriptions d (xs @ ys) = subscriptions d xs @ subscriptions d ys"
  by (simp add: subscriptions_def)

lemma subscribed_quiet: "\<not> loud c \<Longrightarrow> subscribed d c = []"
  by (cases c) simp_all

lemma subscriptions_loud: "subscriptions d (filter loud cs) = subscriptions d cs"
  by (induction cs) (simp_all add: subscriptions_def subscribed_quiet)

lemma subscriptions_map: "subscriptions d (map (subscribeCall d l) rs) = bindRoutes l rs"
  by (induction rs) (simp_all add: subscriptions_def subscribeCall_def bindRoutes_def case_prod_unfold)

lemma isRoute_loud: "isRoute c \<Longrightarrow> loud c"
  by (cases c) simp_all

lemma routeCalls_loud: "routeCalls (filter loud cs) = routeCalls cs"
  by (induction cs) (auto simp: routeCalls_def isRoute_loud)

lemma routeCalls_append: "routeCalls (xs @ ys) = routeCalls xs @ routeCalls ys"
  by (simp add: routeCalls_def)

lemma routeCalls_subscribe: "routeCalls (map (subscribeCall d l) rs) = []"
  by (induction rs) (simp_all add: routeCalls_def subscribeCall_def)

lemma subscriptions_Nil: "subscriptions d [] = []"
  by (simp add: subscriptions_def)

lemma subscriptions_Cons: "subscriptions d (c # cs) = subscribed d c @ subscriptions d cs"
  by (simp add: subscriptions_def)

lemma routeCalls_Nil: "routeCalls [] = []"
  by (simp add: routeCalls_def)

lemma routeCalls_Cons:
  "routeCalls (c # cs) = (if isRoute c then c # routeCalls cs else routeCalls cs)"
  by (simp add: routeCalls_def)

lemma benign_example: "benign exampleOutside"
  by (simp add: benign_def exampleOutside_def)

lemma local_example: "getenv exampleOutside ''ENV'' = ''local''"
  by (simp add: exampleOutside_def)

lemma example_returns: "\<exists>s. NewContainer pid exampleWorld = Inr s"
  by (rule NewContainer_returns) (simp_all add: exampleWorld_def benign_example local_example)

text \<open>C4\<close>

theorem swagger_routes_registered_last:
  assumes "NewContainer pid w = Inr s"
  shows "\<exists>hm ht hh.
           kindAt KMessageHandler hm s \<and> kindAt KMessageThreadHandler ht s \<and>
           kindAt KHeartbeatHandler hh s \<and> app (fst s) \<noteq> None \<and>
           routeCalls (trace (snd s)) =
             routeCalls (trace w) @
             [HandlerRegisterRoutes hm (app (fst s)) ''v1'',
              HandlerRegisterRoutes ht (app (fst s)) ''v1'',
              HandlerRegisterRoutes hh (app (fst s)) ''v1'',
              AppGet (app (fst s)) ''/*'']"
proof -
  from NewContainer_effect [OF assms] obtain am at ah hm ht hh where
    k: "kindAt KMessageHandler hm s" "kindAt KMessageThreadHandler ht s"
       "kindAt KHeartbeatHandler hh s" "app (fst s) \<noteq> None"
    and l: "filter loud (trace (snd s)) =
             filter loud (trace w) @
             map (subscribeCall (eventDispatcher (fst s)) (Some am)) (messageRoutes (outside w)) @
             [HandlerRegisterRoutes hm (app (fst s)) ''v1'',
              HandlerRegisterRoutes ht (app (fst s)) ''v1''] @
             map (subscribeCall (eventDispatcher (fst s)) (Some at))
               (messageThreadRoutes (outside w)) @
             [HandlerRegisterRoutes hh (app (fst s)) ''v1''] @
             map (subscribeCall (eventDispatcher (fst s)) (Some ah))
               (heartbeatRoutes (outside w)) @
             [AppGet (app (fst s)) ''/*'']"
    by blast
  have "routeCalls (trace (snd s)) = routeCalls (filter loud (trace (snd s)))"
    by (simp add: routeCalls_loud)
  also have "\<dots> = routeCalls (trace w) @
             [HandlerRegisterRoutes hm (app (fst s)) ''v1'',
              HandlerRegisterRoutes ht (app (fst s)) ''v1'',
              HandlerRegisterRoutes hh (app (fst s)) ''v1'',
              AppGet (app (fst s)) ''/*'']"
    unfolding l
    by (simp add: routeCalls_append routeCalls_subscribe routeCalls_loud routeCalls_Cons
        routeCalls_Nil)
  finally show ?thesis using k by blast
qed

theorem swagger_routes_registered_last_witness:
  "case NewContainer ''api'' exampleWorld of
     Inl e \<Rightarrow> False
   | Inr s \<Rightarrow>
       (\<exists>hm ht hh. app (fst s) \<noteq> None \<and>
          routeCalls (trace (snd s)) =
            [HandlerRegisterRoutes hm (app (fst s)) ''v1'',
             HandlerRegisterRoutes ht (app (fst s)) ''v1'',
             HandlerRegisterRoutes hh (app (fst s)) ''v1'',
             AppGet (app (fst s)) ''/*''])"
proof -
  from example_returns obtain s where s: "NewContainer ''api'' exampleWorld = Inr s" by blast
  have "routeCalls (trace exampleWorld) = []" by (simp add: exampleWorld_def routeCalls_Nil)
  with swagger_routes_registered_last [OF s] show ?thesis
    unfolding s by simp blast
qed

text \<open>C5\<close>

lemma accessors_subscriptions:
  assumes "m \<in> set accessors" and "m s = Inr (x, s')"
  shows "subscriptions d (trace (snd s')) = subscriptions d (trace (snd s))"
proof -
  from tripleD [OF accessors_inv [OF assms(1)] invar_init assms(2)]
  have "invar True False False False False (length (heap (snd s))) (length (trace (snd s))) s s'" .
  from louds_quiet [OF this] show ?thesis by (metis subscriptions_loud)
qed

lemma routeRegistrations_subscriptions:
  assumes "r \<in> set routeRegistrations" and "r s = Inr (u, s')"
  shows "subscriptions d (trace (snd s')) = subscriptions d (trace (snd s))"
proof -
  note I = invar_init [of True False s]
  from assms(1) consider "r = RegisterMessageRoutes" | "r = RegisterMessageThreadRoutes"
    | "r = RegisterHeartbeatRoutes" | "r = RegisterSwaggerRoutes"
    by (auto simp: routeRegistrations_def)
  then have "\<exists>c. filter loud (trace (snd s')) = filter loud (trace (snd s)) @ [c] \<and>
                 subscribed d c = []"
  proof cases
    case 1
    from registerRoutes_effect [OF MessageHandler_inv I assms(2) [unfolded 1 RegisterMessageRoutes_def]]
    show ?thesis by auto
  next
    case 2
    from registerRoutes_effect [OF MessageThreadHandler_inv I
        assms(2) [unfolded 2 RegisterMessageThreadRoutes_def]]
    show ?thesis by auto
  next
    case 3
    from registerRoutes_effect [OF HeartbeatHandler_inv I
        assms(2) [unfolded 3 RegisterHeartbeatRoutes_def]]
    show ?thesis by auto
  next
    case 4
    from RegisterSwaggerRoutes_effect [OF I assms(2) [unfolded 4]]
    show ?thesis by auto
  qed
  then obtain c where c: "filter loud (trace (snd s')) = filter loud (trace (snd s)) @ [c]"
    "subscribed d c = []" by blast
  have "subscriptions d (trace (snd s')) = subscriptions d (filter loud (trace (snd s')))"
    by (simp add: subscriptions_loud)
  also have "\<dots> = subscriptions d (trace (snd s))"
    unfolding c(1)
    by (simp add: subscriptions_append subscriptions_loud subscriptions_Cons subscriptions_Nil c(2))
  finally show ?thesis .
qed

lemma NewContainer_subscriptions:
  assumes "NewContainer pid w = Inr s"
  shows "\<exists>am at ah.
      eventDispatcher (fst s) \<noteq> None \<and>
      kindAt KMessageListener (Some am) s \<and> kindAt KMessageThreadListener (Some at) s \<and>
      kindAt KHeartbeatListener (Some ah) s \<and>
      subscriptions (eventDispatcher (fst s)) (trace (snd s)) =
        subscriptions (eventDispatcher (fst s)) (trace w) @
        bindRoutes (Some am) (messageRoutes (outside w)) @
        bindRoutes (Some at) (messageThreadRoutes (outside w)) @
        bindRoutes (Some ah) (heartbeatRoutes (outside w))"
proof -
  let ?d = "eventDispatcher (fst s)"
  from NewContainer_effect [OF assms] obtain am at ah hm ht hh where
    k: "?d \<noteq> None" "kindAt KMessageListener (Some am) s"
       "kindAt KMessageThreadListener (Some at) s" "kindAt KHeartbeatListener (Some ah) s"
    and l: "filter loud (trace (snd s)) =
             filter loud (trace w) @
             map (subscribeCall ?d (Some am)) (messageRoutes (outside w)) @
             [HandlerRegisterRoutes hm (app (fst s)) ''v1'',
              HandlerRegisterRoutes ht (app (fst s)) ''v1''] @
             map (subscribeCall ?d (Some at)) (messageThreadRoutes (outside w)) @
             [HandlerRegisterRoutes hh (app (fst s)) ''v1''] @
             map (subscribeCall ?d (Some ah)) (heartbeatRoutes (outside w)) @
             [AppGet (app (fst s)) ''/*'']"
    by blast
  have "subscriptions ?d (trace (snd s)) = subscriptions ?d (filter loud (trace (snd s)))"
    by (simp add: subscriptions_loud)
  also have "\<dots> = subscriptions ?d (trace w) @
        bindRoutes (Some am) (messageRoutes (outside w)) @
        bindRoutes (Some at) (messageThreadRoutes (outside w)) @
        bindRoutes (Some ah) (heartbeatRoutes (outside w))"
    unfolding l
    by (simp add: subscriptions_append subscriptions_map subscriptions_loud subscriptions_Cons
        subscriptions_Nil)
  finally show ?thesis using k by blast
qed

theorem subscriptions_built_by_NewContainer:
  "(NewContainer pid w = Inr s1 \<longrightarrow>
      (\<exists>am at ah.
         eventDispatcher (fst s1) \<noteq> None \<and>
         kindAt KMessageListener (Some am) s1 \<and> kindAt KMessageThreadListener (Some at) s1 \<and>
         kindAt KHeartbeatListener (Some ah) s1 \<and>
         subscriptions (eventDispatcher (fst s1)) (trace (snd s1)) =
           subscriptions (eventDispatcher (fst s1)) (trace w) @
           bindRoutes (Some am) (messageRoutes (outside w)) @
           bindRoutes (Some at) (messageThreadRoutes (outside w)) @
           bindRoutes (Some ah) (heartbeatRoutes (outside w)))) \<and>
   (\<forall>m \<in> set accessors. \<forall>x s'. m s = Inr (x, s') \<longrightarrow>
      subscriptions d (trace (snd s')) = subscriptions d (trace (snd s))) \<and>
   (\<forall>r \<in> set routeRegistrations. \<forall>u s'. r s = Inr (u, s') \<longrightarrow>
      subscriptions d (trace (snd s')) = subscriptions d (trace (snd s)))"
  using NewContainer_subscriptions accessors_subscriptions routeRegistrations_subscriptions
  by blast

end
